theory Spec2Isabelle
  imports Complex_Main
begin

section \<open>Python strings\<close>

text \<open>
  A Python \<^verbatim>\<open>str\<close> is a sequence of Unicode code points, and \<^verbatim>\<open>len\<close>, slicing,
  \<^verbatim>\<open>lower\<close> and the regular expressions of the program all count code points. The
  program's texts are Russian, so a string is modelled as the list of its code points.
  The tables of the Python runtime (whitespace, lower case, word characters) are written
  out for Basic Latin and the Cyrillic block (U+0400 to U+04FF), the two alphabets of the
  program's texts: a code point outside them is its own lower case and is no word
  character. The whitespace table is the complete one of CPython.
\<close>

type_synonym ustr = "nat list"

definition is_space :: "nat \<Rightarrow> bool" where
  "is_space c = (c \<in> set [9, 10, 11, 12, 13, 28, 29, 30, 31, 32, 133, 160, 5760,
      8192, 8193, 8194, 8195, 8196, 8197, 8198, 8199, 8200, 8201, 8202,
      8232, 8233, 8239, 8287, 12288])"

definition lower_cp :: "nat \<Rightarrow> nat" where
  "lower_cp c =
     (if 65 \<le> c \<and> c \<le> 90 then c + 32
      else if 1040 \<le> c \<and> c \<le> 1071 then c + 32
      else if 1024 \<le> c \<and> c \<le> 1039 then c + 80
      else if c = 1216 then 1231
      else if 1217 \<le> c \<and> c \<le> 1230 then (if odd c then c + 1 else c)
      else if (1120 \<le> c \<and> c \<le> 1153) \<or> (1162 \<le> c \<and> c \<le> 1279)
        then (if even c then c + 1 else c)
      else c)"

definition lower :: "ustr \<Rightarrow> ustr" where
  "lower s = map lower_cp s"

definition is_word :: "nat \<Rightarrow> bool" where
  "is_word c =
     ((48 \<le> c \<and> c \<le> 57) \<or> (65 \<le> c \<and> c \<le> 90) \<or> c = 95 \<or> (97 \<le> c \<and> c \<le> 122)
      \<or> (1024 \<le> c \<and> c \<le> 1153) \<or> (1162 \<le> c \<and> c \<le> 1279))"

text \<open>\<^verbatim>\<open>w\<close> starts \<^verbatim>\<open>s\<close>, exactly and ignoring case (\<^verbatim>\<open>re.IGNORECASE\<close>).\<close>

fun starts_with :: "ustr \<Rightarrow> ustr \<Rightarrow> bool" where
  "starts_with [] s = True"
| "starts_with (a # w) [] = False"
| "starts_with (a # w) (c # s) = (a = c \<and> starts_with w s)"

fun starts_with_ci :: "ustr \<Rightarrow> ustr \<Rightarrow> bool" where
  "starts_with_ci [] s = True"
| "starts_with_ci (a # w) [] = False"
| "starts_with_ci (a # w) (c # s) = (lower_cp a = lower_cp c \<and> starts_with_ci w s)"

text \<open>\<^verbatim>\<open>w in s\<close> on strings.\<close>

fun contains :: "ustr \<Rightarrow> ustr \<Rightarrow> bool" where
  "contains w [] = (w = [])"
| "contains w (c # s) = (starts_with w (c # s) \<or> contains w s)"

text \<open>
  \<^verbatim>\<open>s.replace(w, '')\<close>: the occurrences of \<^verbatim>\<open>w\<close> are removed from left to right,
  without overlap. The counter is the number of characters of the current occurrence
  still to skip.
\<close>

fun remove_from :: "ustr \<Rightarrow> nat \<Rightarrow> ustr \<Rightarrow> ustr" where
  "remove_from w k [] = []"
| "remove_from w (Suc k) (c # s) = remove_from w k s"
| "remove_from w 0 (c # s) =
     (if w \<noteq> [] \<and> starts_with w (c # s) then remove_from w (length w - 1) s
      else c # remove_from w 0 s)"

definition replace_empty :: "ustr \<Rightarrow> ustr \<Rightarrow> ustr" where
  "replace_empty w s = remove_from w 0 s"

text \<open>\<^verbatim>\<open>re.sub(re.escape(w), '', s, flags=re.IGNORECASE)\<close>: the same, ignoring case.
  The empty pattern matches the empty string everywhere and removes nothing.\<close>

fun remove_from_ci :: "ustr \<Rightarrow> nat \<Rightarrow> ustr \<Rightarrow> ustr" where
  "remove_from_ci w k [] = []"
| "remove_from_ci w (Suc k) (c # s) = remove_from_ci w k s"
| "remove_from_ci w 0 (c # s) =
     (if w \<noteq> [] \<and> starts_with_ci w (c # s) then remove_from_ci w (length w - 1) s
      else c # remove_from_ci w 0 s)"

definition sub_empty_ci :: "ustr \<Rightarrow> ustr \<Rightarrow> ustr" where
  "sub_empty_ci w s = remove_from_ci w 0 s"

text \<open>\<^verbatim>\<open>re.sub(r'\s+', ' ', s)\<close>: every run of whitespace becomes one space.\<close>

function collapse_spaces :: "ustr \<Rightarrow> ustr" where
  "collapse_spaces [] = []"
| "collapse_spaces (c # s) =
     (if is_space c then 32 # collapse_spaces (dropWhile is_space s)
      else c # collapse_spaces s)"
  by pat_completeness auto
termination
  by (relation "measure length") (auto simp: less_Suc_eq_le length_dropWhile_le)

text \<open>\<^verbatim>\<open>s.strip()\<close>.\<close>

definition strip :: "ustr \<Rightarrow> ustr" where
  "strip s = rev (dropWhile is_space (rev (dropWhile is_space s)))"

section \<open>Short names\<close>

text \<open>
  \<^verbatim>\<open>WORDS_TO_REMOVE\<close> is a Python set: the loop of \<^verbatim>\<open>shorten_name\<close> visits its
  words in the order of the set's hash table, which is fixed while the process runs.
  \<^verbatim>\<open>shorten_name_iter\<close> takes that order as its first argument; \<^verbatim>\<open>shorten_name\<close>
  is the function at the order in which the source writes the set.
\<close>

definition WORDS_TO_REMOVE :: "ustr list" where
  "WORDS_TO_REMOVE =
    [[1089, 1074, 1077, 1090],
     [108, 105, 103, 104, 116],
     [115, 119, 105, 116, 99, 104],
     [1074, 1099, 1082, 1083, 1102, 1095, 1072, 1090, 1077, 1083, 1100],
     [1088, 1086, 1079, 1077, 1090, 1082, 1072],
     [1083, 1072, 1084, 1087, 1072],
     [108, 97, 109, 112],
     [1091, 1087, 1088, 1072, 1074, 1083, 1077, 1085, 1080, 1077],
     [99, 111, 110, 116, 114, 111, 108],
     [116, 101, 109, 112, 101, 114, 97, 116, 117, 114, 101, 32, 104, 117, 109, 105, 100,
      105, 116, 121, 32, 115, 101, 110, 115, 111, 114]]"

text \<open>The placeholder \<^verbatim>\<open>"Ustrojstvo"\<close> (device) and the ellipsis \<^verbatim>\<open>"..."\<close>.\<close>

definition DEVICE_PLACEHOLDER :: ustr where
  "DEVICE_PLACEHOLDER = [1059, 1089, 1090, 1088, 1086, 1081, 1089, 1090, 1074, 1086]"

definition ELLIPSIS :: ustr where
  "ELLIPSIS = [46, 46, 46]"

fun remove_words :: "ustr list \<Rightarrow> ustr \<Rightarrow> ustr" where
  "remove_words [] clean_name = clean_name"
| "remove_words (word # ws) clean_name = remove_words ws (replace_empty word clean_name)"

definition shorten_name_iter :: "ustr list \<Rightarrow> ustr \<Rightarrow> ustr \<Rightarrow> ustr" where
  "shorten_name_iter ws name area_name =
     (let clean_name = sub_empty_ci area_name name;
          clean_name = remove_words ws clean_name;
          clean_name = strip (collapse_spaces clean_name)
      in if length clean_name > 12 then take 12 clean_name @ ELLIPSIS
         else if clean_name \<noteq> [] then clean_name else DEVICE_PLACEHOLDER)"

definition shorten_name :: "ustr \<Rightarrow> ustr \<Rightarrow> ustr" where
  "shorten_name name area_name = shorten_name_iter WORDS_TO_REMOVE name area_name"

text \<open>
  Two predicates for the proofs about short names. \<^verbatim>\<open>norm_ws\<close>: every whitespace
  character is a single space with no whitespace after it. \<^verbatim>\<open>tidy\<close>: moreover the
  string neither starts nor ends with whitespace.
\<close>

fun norm_ws :: "ustr \<Rightarrow> bool" where
  "norm_ws [] = True"
| "norm_ws [c] = (is_space c \<longrightarrow> c = 32)"
| "norm_ws (c # d # r) = ((is_space c \<longrightarrow> c = 32 \<and> \<not> is_space d) \<and> norm_ws (d # r))"

definition tidy :: "ustr \<Rightarrow> bool" where
  "tidy s = (norm_ws s \<and> (s \<noteq> [] \<longrightarrow> \<not> is_space (hd s) \<and> \<not> is_space (last s)))"

section \<open>The pattern table\<close>

text \<open>
  The regular expressions of \<^verbatim>\<open>_compile_patterns\<close> are sequences of three kinds of
  items: a literal text, \<^verbatim>\<open>\s*\<close> and \<^verbatim>\<open>\b\<close>. All of them are compiled with
  \<^verbatim>\<open>re.IGNORECASE\<close>, so a literal is compared ignoring case.
\<close>

datatype re_item = Lit ustr | Spaces | WordB

type_synonym pattern = "re_item list"

text \<open>\<^verbatim>\<open>\b\<close>: exactly one of the characters before and after the position is a word
  character; the two ends of the text count as non-word characters.\<close>

definition word_boundary :: "nat option \<Rightarrow> ustr \<Rightarrow> bool" where
  "word_boundary prev s =
     ((case prev of None \<Rightarrow> False | Some p \<Rightarrow> is_word p)
      \<noteq> (case s of [] \<Rightarrow> False | c # _ \<Rightarrow> is_word c))"

text \<open>The pattern matches at the start of \<^verbatim>\<open>s\<close>, the character before being
  \<^verbatim>\<open>prev\<close>.\<close>

fun match_here :: "pattern \<Rightarrow> nat option \<Rightarrow> ustr \<Rightarrow> bool" where
  "match_here [] prev s = True"
| "match_here (Lit w # r) prev s =
     (starts_with_ci w s \<and>
      match_here r (if w = [] then prev else Some (last (take (length w) s)))
        (drop (length w) s))"
| "match_here (Spaces # r) prev s =
     (match_here r prev s \<or>
      (case s of [] \<Rightarrow> False
       | c # cs \<Rightarrow> is_space c \<and> match_here (Spaces # r) (Some c) cs))"
| "match_here (WordB # r) prev s = (word_boundary prev s \<and> match_here r prev s)"

text \<open>\<^verbatim>\<open>pattern.search(s)\<close>, as a truth value: the pattern matches at some position.\<close>

fun search_from :: "pattern \<Rightarrow> nat option \<Rightarrow> ustr \<Rightarrow> bool" where
  "search_from p prev [] = match_here p prev []"
| "search_from p prev (c # s) = (match_here p prev (c # s) \<or> search_from p (Some c) s)"

definition re_search :: "pattern \<Rightarrow> ustr \<Rightarrow> bool" where
  "re_search p s = search_from p None s"

text \<open>\<^verbatim>\<open>str(i)\<close> for a natural number: its decimal digits.\<close>

function str_nat :: "nat \<Rightarrow> ustr" where
  "str_nat n = (if n < 10 then [48 + n] else str_nat (n div 10) @ [48 + n mod 10])"
  by pat_completeness auto
termination
  by (relation "measure id") auto

declare str_nat.simps [simp del]

text \<open>
  The texts of the table: \<^verbatim>\<open>"Domik "\<close> (the prefix of a house name, with a capital),
  \<^verbatim>\<open>"Obshchie ustrojstva"\<close> (general devices), and the pattern words \<^verbatim>\<open>"dom"\<close>,
  \<^verbatim>\<open>"domik"\<close>, \<^verbatim>\<open>"kottedzh"\<close> in Cyrillic, \<^verbatim>\<open>"house"\<close>, \<^verbatim>\<open>"cottage"\<close>,
  \<^verbatim>\<open>"t"\<close>, \<^verbatim>\<open>"kws-306wf t"\<close> and \<^verbatim>\<open>"temperature humidity sensor"\<close>.
\<close>

definition HOUSE_PREFIX :: ustr where
  "HOUSE_PREFIX = [1044, 1086, 1084, 1080, 1082, 32]"

definition GENERAL_AREA :: ustr where
  "GENERAL_AREA = [1054, 1073, 1097, 1080, 1077, 32, 1091, 1089, 1090, 1088, 1086, 1081,
     1089, 1090, 1074, 1072]"

definition house_name :: "nat \<Rightarrow> ustr" where
  "house_name i = HOUSE_PREFIX @ str_nat i"

definition house_patterns :: "nat \<Rightarrow> pattern list" where
  "house_patterns i =
     [[Lit [1076, 1086, 1084], Spaces, Lit (str_nat i)],
      [Lit [1076, 1086, 1084, 1080, 1082], Spaces, Lit (str_nat i)],
      [Lit [1082, 1086, 1090, 1090, 1077, 1076, 1078], Spaces, Lit (str_nat i)],
      [Lit [104, 111, 117, 115, 101], Spaces, Lit (str_nat i)],
      [Lit [99, 111, 116, 116, 97, 103, 101], Spaces, Lit (str_nat i)],
      [WordB, Lit (str_nat i), WordB],
      [Lit ([116] @ str_nat i)],
      [Lit ([107, 119, 115, 45, 51, 48, 54, 119, 102, 32, 116] @ str_nat i)]]"

definition SENSOR_LABEL :: ustr where
  "SENSOR_LABEL = [116, 101, 109, 112, 101, 114, 97, 116, 117, 114, 101, 32, 104, 117, 109,
     105, 100, 105, 116, 121, 32, 115, 101, 110, 115, 111, 114]"

text \<open>\<^verbatim>\<open>d[k].append(v)\<close> on a dictionary of lists, kept as an association list in
  insertion order. Every key the program appends to is a key of the dictionary
  (lemmas \<^verbatim>\<open>house_name_1_in_table\<close> and \<^verbatim>\<open>assign_in_houses\<close> below), so the
  lookup does not fail.\<close>

fun dict_append :: "ustr \<Rightarrow> 'a \<Rightarrow> (ustr \<times> 'a list) list \<Rightarrow> (ustr \<times> 'a list) list" where
  "dict_append k v [] = []"
| "dict_append k v ((k', vs) # d) =
     (if k' = k then (k', vs @ [v]) # d else (k', vs) # dict_append k v d)"

text \<open>\<^verbatim>\<open>_compile_patterns\<close>: the table for \<^verbatim>\<open>i in range(1, 11)\<close>, then the sensor
  label appended to the patterns of house 1.\<close>

definition HOUSE_PATTERNS :: "(ustr \<times> pattern list) list" where
  "HOUSE_PATTERNS =
     dict_append (house_name 1) [Lit SENSOR_LABEL]
       (map (\<lambda>i. (house_name i, house_patterns i)) [1..<11])"

section \<open>Devices and their grouping\<close>

text \<open>
  An entity as the hub reports it. The replies of the hub are taken well-formed, as the
  REST interface of Home Assistant documents them: every state object has its
  \<^verbatim>\<open>entity_id\<close>, \<^verbatim>\<open>state\<close> and \<^verbatim>\<open>attributes\<close>. Of the attributes the program reads
  two, both texts.
\<close>

record entity =
  entity_id :: ustr
  state :: ustr
  attributes :: "(ustr \<times> ustr) list"
  last_changed :: ustr
  last_updated :: ustr

definition FRIENDLY_NAME :: ustr where
  "FRIENDLY_NAME = [102, 114, 105, 101, 110, 100, 108, 121, 95, 110, 97, 109, 101]"

definition UNIT_OF_MEASUREMENT :: ustr where
  "UNIT_OF_MEASUREMENT = [117, 110, 105, 116, 95, 111, 102, 95, 109, 101, 97, 115, 117, 114,
     101, 109, 101, 110, 116]"

definition ON :: ustr where
  "ON = [111, 110]"

definition OFF :: ustr where
  "OFF = [111, 102, 102]"

text \<open>\<^verbatim>\<open>d.get(k, default)\<close>.\<close>

definition dict_get :: "('k \<times> 'v) list \<Rightarrow> 'k \<Rightarrow> 'v \<Rightarrow> 'v" where
  "dict_get d k dflt = (case map_of d k of None \<Rightarrow> dflt | Some v \<Rightarrow> v)"

definition CONTROLLABLE_DOMAINS :: "ustr list" where
  "CONTROLLABLE_DOMAINS =
     [[108, 105, 103, 104, 116], [115, 119, 105, 116, 99, 104],
      [99, 108, 105, 109, 97, 116, 101], [99, 111, 118, 101, 114], [102, 97, 110],
      [105, 110, 112, 117, 116, 95, 98, 111, 111, 108, 101, 97, 110]]"

text \<open>\<^verbatim>\<open>entity_id.split('.')[0]\<close>: the text before the first dot.\<close>

definition domain_of :: "ustr \<Rightarrow> ustr" where
  "domain_of eid = takeWhile (\<lambda>c. c \<noteq> 46) eid"

definition is_controllable_device :: "ustr \<Rightarrow> bool" where
  "is_controllable_device eid = (domain_of eid \<in> set CONTROLLABLE_DOMAINS)"

text \<open>\<^verbatim>\<open>_assign_device_to_house\<close>: the loop over the items of the table.\<close>

fun assign_loop :: "(ustr \<times> pattern list) list \<Rightarrow> ustr \<Rightarrow> ustr" where
  "assign_loop [] friendly_name_lower = GENERAL_AREA"
| "assign_loop ((name, patterns) # rest) friendly_name_lower =
     (if list_ex (\<lambda>pattern. re_search pattern friendly_name_lower) patterns then name
      else assign_loop rest friendly_name_lower)"

definition assign_device_to_house :: "ustr \<Rightarrow> ustr" where
  "assign_device_to_house friendly_name = assign_loop HOUSE_PATTERNS (lower friendly_name)"

definition empty_houses :: "(ustr \<times> entity list) list" where
  "empty_houses = map (\<lambda>i. (house_name i, [])) [1..<11] @ [(GENERAL_AREA, [])]"

text \<open>The grouping loop of \<^verbatim>\<open>manual_area_grouping\<close> and the function on a device list:
  filter, group, drop the empty groups.\<close>

fun group_loop :: "entity list \<Rightarrow> (ustr \<times> entity list) list \<Rightarrow> (ustr \<times> entity list) list" where
  "group_loop [] houses = houses"
| "group_loop (device # rest) houses =
     group_loop rest
       (dict_append (assign_device_to_house (dict_get (attributes device) FRIENDLY_NAME []))
          device houses)"

definition group_devices :: "entity list \<Rightarrow> (ustr \<times> entity list) list" where
  "group_devices all_devices =
     (let controllable_devices =
            filter (\<lambda>device. is_controllable_device (entity_id device)) all_devices;
          houses = group_loop controllable_devices empty_houses
      in filter (\<lambda>(k, v). v \<noteq> []) houses)"

text \<open>Group \<^verbatim>\<open>i\<close> has a pattern that matches the display name, ignoring case.\<close>

definition house_matches :: "nat \<Rightarrow> ustr \<Rightarrow> bool" where
  "house_matches i friendly_name =
     (case map_of HOUSE_PATTERNS (house_name i) of
        None \<Rightarrow> False
      | Some patterns \<Rightarrow> list_ex (\<lambda>pattern. re_search pattern (lower friendly_name)) patterns)"

section \<open>The hub, the clock and the state of the bot\<close>

text \<open>
  The requests the program sends to the hub: \<^verbatim>\<open>GET states\<close>,
  \<^verbatim>\<open>GET states/<entity_id>\<close> and \<^verbatim>\<open>POST services/<domain>/turn_<action>\<close> for an
  entity.
\<close>

datatype hub_request = GetStates | GetState ustr | CallService ustr ustr ustr

text \<open>
  The world outside the program. A reply of the hub depends on the request and on the
  number of requests the hub has received before, so the hub may answer the same request
  differently at different times. \<^verbatim>\<open>None\<close> is a request that failed
  (\<^verbatim>\<open>_make_request\<close> catches every exception and returns \<^verbatim>\<open>None\<close>) or an empty
  reply; for a service call the reply only matters as being \<^verbatim>\<open>None\<close> or not. The clock
  gives the value of each reading of \<^verbatim>\<open>time.time()\<close>, in seconds, and
  \<^verbatim>\<open>send_reply\<close> tells whether the messaging platform answers a \<^verbatim>\<open>sendMessage\<close>.
\<close>

record world =
  states_reply :: "nat \<Rightarrow> entity list option"
  state_reply :: "nat \<Rightarrow> ustr \<Rightarrow> entity option"
  service_reply :: "nat \<Rightarrow> ustr \<Rightarrow> ustr \<Rightarrow> ustr \<Rightarrow> bool"
  clock :: "nat \<Rightarrow> real"
  send_reply :: "nat \<Rightarrow> bool"

record user_state =
  ustate :: ustr
  udata :: "ustr option"

record reading =
  r_value :: ustr
  r_unit :: ustr
  r_name :: ustr
  r_entity_id :: ustr

text \<open>
  The messages of the bot, one constructor for each text template of the source, with
  the values the template interpolates: the greeting (houses, devices), the summary of an
  area (area, devices, devices on), the list of states of an area (area, devices, devices
  on, short name and state of each device), the status of all houses (for each area the
  devices on and the devices, then the totals), the sensor lines, and the fixed texts.
\<close>

datatype kws_line =
    TemperatureIndoor ustr ustr
  | TemperatureOutdoor ustr ustr
  | Humidity ustr ustr
  | Battery ustr ustr
  | Voltage "(ustr \<times> ustr \<times> ustr) list"
  | TotalEnergy ustr ustr

datatype message =
    Greeting nat nat
  | AreaSummary ustr nat nat
  | NoDevices ustr
  | ChooseFromMenu
  | UnknownCommand
  | HandlerError
  | ChooseHouse
  | Switched ustr bool
  | ControlError ustr
  | DeviceNotFound ustr
  | AreaStatus ustr nat nat "(ustr \<times> bool) list"
  | AllStatus "(ustr \<times> nat \<times> nat) list" nat nat
  | SensorsUnavailable
  | SensorsTemporarilyUnavailable
  | SensorData "kws_line list"

record sent =
  chat_id :: int
  text_sent :: message
  keyboard :: "ustr list list"
  delivered :: bool

text \<open>
  The attributes of \<^verbatim>\<open>OptimizedHomeBot\<close>, the memo of the \<^verbatim>\<open>lru_cache\<close> of
  \<^verbatim>\<open>get_all_areas_list\<close>, and three records of what the program has done: the
  requests sent to the hub, the number of clock readings, and the \<^verbatim>\<open>sendMessage\<close>
  calls.
\<close>

record bot =
  last_id :: int
  user_states :: "int \<Rightarrow> user_state option"
  devices_cache :: "(ustr \<times> entity list) list"
  sensors_cache :: "(ustr \<times> (ustr \<times> reading) list) list"
  all_devices :: "entity list option"
  cache_timestamp :: "(ustr \<times> real) list"
  areas_list_memo :: "ustr list option"
  hub_log :: "hub_request list"
  ticks :: nat
  outbox :: "sent list"

definition CACHE_TTL :: real where
  "CACHE_TTL = 2"

definition KEY_ALL :: ustr where
  "KEY_ALL = [97, 108, 108]"

definition init :: bot where
  "init = \<lparr>last_id = 0, user_states = (\<lambda>_. None), devices_cache = [], sensors_cache = [],
            all_devices = None, cache_timestamp = [], areas_list_memo = None,
            hub_log = [], ticks = 0, outbox = []\<rparr>"

text \<open>\<^verbatim>\<open>k in d\<close> and \<^verbatim>\<open>d[k] = v\<close> on a dictionary kept as an association list.\<close>

definition dict_has :: "('k \<times> 'v) list \<Rightarrow> 'k \<Rightarrow> bool" where
  "dict_has d k = (map_of d k \<noteq> None)"

fun dict_set :: "'k \<Rightarrow> 'v \<Rightarrow> ('k \<times> 'v) list \<Rightarrow> ('k \<times> 'v) list" where
  "dict_set k v [] = [(k, v)]"
| "dict_set k v ((k', v') # d) =
     (if k' = k then (k, v) # d else (k', v') # dict_set k v d)"

text \<open>The three calls of \<^verbatim>\<open>home_assistant\<close> and the reading of the clock.\<close>

definition hub_get_states :: "world \<Rightarrow> bot \<Rightarrow> entity list option \<times> bot" where
  "hub_get_states w s =
     (states_reply w (length (hub_log s)), s\<lparr>hub_log := hub_log s @ [GetStates]\<rparr>)"

definition hub_get_state :: "world \<Rightarrow> ustr \<Rightarrow> bot \<Rightarrow> entity option \<times> bot" where
  "hub_get_state w eid s =
     (state_reply w (length (hub_log s)) eid, s\<lparr>hub_log := hub_log s @ [GetState eid]\<rparr>)"

definition hub_call_service :: "world \<Rightarrow> ustr \<Rightarrow> ustr \<Rightarrow> ustr \<Rightarrow> bot \<Rightarrow> bool \<times> bot" where
  "hub_call_service w domain action eid s =
     (service_reply w (length (hub_log s)) domain action eid,
      s\<lparr>hub_log := hub_log s @ [CallService domain action eid]\<rparr>)"

definition time_time :: "world \<Rightarrow> bot \<Rightarrow> real \<times> bot" where
  "time_time w s = (clock w (ticks s), s\<lparr>ticks := Suc (ticks s)\<rparr>)"

section \<open>The cache layer\<close>

definition get_all_devices :: "world \<Rightarrow> bot \<Rightarrow> entity list \<times> bot" where
  "get_all_devices w s =
     (case all_devices s of
        None \<Rightarrow>
          (let (result, s') = hub_get_states w s;
               devices = (case result of None \<Rightarrow> [] | Some l \<Rightarrow> l)
           in (devices, s'\<lparr>all_devices := Some devices\<rparr>))
      | Some devices \<Rightarrow> (devices, s))"

definition manual_area_grouping ::
  "world \<Rightarrow> bool \<Rightarrow> bot \<Rightarrow> (ustr \<times> entity list) list \<times> bot" where
  "manual_area_grouping w force_refresh s =
     (let s1 = (if force_refresh then s\<lparr>all_devices := None\<rparr> else s);
          (devices, s2) = get_all_devices w s1
      in (group_devices devices, s2))"

definition cache_valid :: "bool \<Rightarrow> real \<Rightarrow> bot \<Rightarrow> bool" where
  "cache_valid force_refresh current_time s =
     (\<not> force_refresh \<and>
      (case map_of (cache_timestamp s) KEY_ALL of
         None \<Rightarrow> False
       | Some t \<Rightarrow> current_time - t < CACHE_TTL) \<and>
      dict_has (devices_cache s) KEY_ALL)"

definition load_areas_with_devices ::
  "world \<Rightarrow> bool \<Rightarrow> bot \<Rightarrow> (ustr \<times> entity list) list \<times> bot" where
  "load_areas_with_devices w force_refresh s =
     (let (current_time, s1) = time_time w s
      in if \<not> cache_valid force_refresh current_time s1 then
           (let (grouped, s2) = manual_area_grouping w force_refresh s1;
                s3 = s2\<lparr>devices_cache := grouped,
                        cache_timestamp := dict_set KEY_ALL current_time (cache_timestamp s2)\<rparr>
            in (devices_cache s3, s3))
         else (devices_cache s1, s1))"

definition clear_cache :: "bot \<Rightarrow> bot" where
  "clear_cache s =
     s\<lparr>devices_cache := [], all_devices := None, cache_timestamp := [],
       areas_list_memo := None\<rparr>"

definition get_area_devices :: "world \<Rightarrow> ustr \<Rightarrow> bool \<Rightarrow> bot \<Rightarrow> entity list \<times> bot" where
  "get_area_devices w area_name force_refresh s =
     (let s1 = (if force_refresh then clear_cache s else s);
          (areas, s2) = load_areas_with_devices w force_refresh s1
      in (dict_get areas area_name [], s2))"

text \<open>A number of cache reads without force, one after the other; the result is that of
  the last read.\<close>

fun load_many :: "world \<Rightarrow> nat \<Rightarrow> bot \<Rightarrow> (ustr \<times> entity list) list \<times> bot" where
  "load_many w 0 s = (devices_cache s, s)"
| "load_many w (Suc n) s = load_many w n (snd (load_areas_with_devices w False s))"

section \<open>Sensors\<close>

text \<open>The sensor kinds and the sensor entities of \<^verbatim>\<open>SENSORS_MAP\<close>, which has one
  entry, for house 1.\<close>

definition BATTERY :: ustr where
  "BATTERY = [98, 97, 116, 116, 101, 114, 121]"

definition BATTERY_ID :: ustr where
  "BATTERY_ID = [115, 101, 110, 115, 111, 114, 46, 116, 101, 109, 112, 101, 114, 97, 116, 117, 114,
     101, 95, 104, 117, 109, 105, 100, 105, 116, 121, 95, 115, 101, 110, 115, 111, 114, 95,
     98, 97, 116, 116, 101, 114, 121]"

definition TEMPERATURE_INDOOR :: ustr where
  "TEMPERATURE_INDOOR = [116, 101, 109, 112, 101, 114, 97, 116, 117, 114, 101, 95, 105, 110, 100, 111, 111, 114]"

definition TEMPERATURE_INDOOR_ID :: ustr where
  "TEMPERATURE_INDOOR_ID = [115, 101, 110, 115, 111, 114, 46, 116, 101, 109, 112, 101, 114, 97, 116, 117, 114,
     101, 95, 104, 117, 109, 105, 100, 105, 116, 121, 95, 115, 101, 110, 115, 111, 114, 95,
     116, 101, 109, 112, 101, 114, 97, 116, 117, 114, 101]"

definition HUMIDITY :: ustr where
  "HUMIDITY = [104, 117, 109, 105, 100, 105, 116, 121]"

definition HUMIDITY_ID :: ustr where
  "HUMIDITY_ID = [115, 101, 110, 115, 111, 114, 46, 116, 101, 109, 112, 101, 114, 97, 116, 117, 114,
     101, 95, 104, 117, 109, 105, 100, 105, 116, 121, 95, 115, 101, 110, 115, 111, 114, 95,
     104, 117, 109, 105, 100, 105, 116, 121]"

definition TEMPERATURE_OUTDOOR :: ustr where
  "TEMPERATURE_OUTDOOR = [116, 101, 109, 112, 101, 114, 97, 116, 117, 114, 101, 95, 111, 117, 116, 100, 111,
     111, 114]"

definition TEMPERATURE_OUTDOOR_ID :: ustr where
  "TEMPERATURE_OUTDOOR_ID = [115, 101, 110, 115, 111, 114, 46, 107, 119, 115, 95, 51, 48, 54, 119, 102, 95, 116,
     49, 95, 116, 101, 109, 112, 101, 114, 97, 116, 117, 114, 101, 95, 50]"

definition VOLTAGE_L1 :: ustr where
  "VOLTAGE_L1 = [118, 111, 108, 116, 97, 103, 101, 95, 108, 49]"

definition VOLTAGE_L1_ID :: ustr where
  "VOLTAGE_L1_ID = [115, 101, 110, 115, 111, 114, 46, 107, 119, 115, 95, 51, 48, 54, 119, 102, 95, 116,
     49, 95, 118, 111, 108, 116, 97, 103, 101, 95, 97, 95, 50]"

definition VOLTAGE_L2 :: ustr where
  "VOLTAGE_L2 = [118, 111, 108, 116, 97, 103, 101, 95, 108, 50]"

definition VOLTAGE_L2_ID :: ustr where
  "VOLTAGE_L2_ID = [115, 101, 110, 115, 111, 114, 46, 107, 119, 115, 95, 51, 48, 54, 119, 102, 95, 116,
     49, 95, 118, 111, 108, 116, 97, 103, 101, 95, 98, 95, 50]"

definition VOLTAGE_L3 :: ustr where
  "VOLTAGE_L3 = [118, 111, 108, 116, 97, 103, 101, 95, 108, 51]"

definition VOLTAGE_L3_ID :: ustr where
  "VOLTAGE_L3_ID = [115, 101, 110, 115, 111, 114, 46, 107, 119, 115, 95, 51, 48, 54, 119, 102, 95, 116,
     49, 95, 118, 111, 108, 116, 97, 103, 101, 95, 99, 95, 50]"

definition TOTAL_ENERGY :: ustr where
  "TOTAL_ENERGY = [116, 111, 116, 97, 108, 95, 101, 110, 101, 114, 103, 121]"

definition TOTAL_ENERGY_ID :: ustr where
  "TOTAL_ENERGY_ID = [115, 101, 110, 115, 111, 114, 46, 107, 119, 115, 95, 51, 48, 54, 119, 102, 95, 116,
     49, 95, 116, 111, 116, 97, 108, 95, 101, 110, 101, 114, 103, 121]"

definition SENSORS_MAP :: "(ustr \<times> (ustr \<times> ustr) list) list" where
  "SENSORS_MAP =
     [(house_name 1,
       [(BATTERY, BATTERY_ID),
        (TEMPERATURE_INDOOR, TEMPERATURE_INDOOR_ID),
        (HUMIDITY, HUMIDITY_ID),
        (TEMPERATURE_OUTDOOR, TEMPERATURE_OUTDOOR_ID),
        (VOLTAGE_L1, VOLTAGE_L1_ID),
        (VOLTAGE_L2, VOLTAGE_L2_ID),
        (VOLTAGE_L3, VOLTAGE_L3_ID),
        (TOTAL_ENERGY, TOTAL_ENERGY_ID)])]"

definition INVALID_STATES :: "ustr list" where
  "INVALID_STATES =
     [[117, 110, 97, 118, 97, 105, 108, 97, 98, 108, 101],
      [117, 110, 107, 110, 111, 119, 110], [78, 111, 110, 101], []]"

text \<open>
  \<^verbatim>\<open>_is_float\<close>: the texts that \<^verbatim>\<open>float()\<close> accepts. After the surrounding
  whitespace and one sign have been dropped, these are \<^verbatim>\<open>inf\<close>, \<^verbatim>\<open>infinity\<close> and
  \<^verbatim>\<open>nan\<close> in any case, and the decimal numbers: digits, which single underscores may
  separate, with an optional fraction and an optional exponent.
\<close>

definition is_digit :: "nat \<Rightarrow> bool" where
  "is_digit c = (48 \<le> c \<and> c \<le> 57)"

fun digit_tail :: "ustr \<Rightarrow> ustr" where
  "digit_tail [] = []"
| "digit_tail [c] = (if is_digit c then [] else [c])"
| "digit_tail (c # d # r) =
     (if is_digit c then digit_tail (d # r)
      else if c = 95 \<and> is_digit d then digit_tail r
      else c # d # r)"

definition digit_part :: "ustr \<Rightarrow> ustr option" where
  "digit_part s =
     (case s of [] \<Rightarrow> None | c # r \<Rightarrow> if is_digit c then Some (digit_tail r) else None)"

definition skip_sign :: "ustr \<Rightarrow> ustr" where
  "skip_sign s = (case s of [] \<Rightarrow> [] | c # r \<Rightarrow> if c = 43 \<or> c = 45 then r else s)"

definition exponent_ok :: "ustr \<Rightarrow> bool" where
  "exponent_ok r =
     (case r of
        [] \<Rightarrow> True
      | e # r' \<Rightarrow> (e = 101 \<or> e = 69) \<and> digit_part (skip_sign r') = Some [])"

definition after_dot :: "ustr \<Rightarrow> ustr option" where
  "after_dot r = (case r of [] \<Rightarrow> None | c # r' \<Rightarrow> if c = 46 then Some r' else None)"

definition is_float :: "ustr \<Rightarrow> bool" where
  "is_float v =
     (let s = skip_sign (strip v)
      in if lower s \<in> set [[105, 110, 102], [105, 110, 102, 105, 110, 105, 116, 121],
                            [110, 97, 110]] then True
         else case digit_part s of
                Some r \<Rightarrow>
                  (case after_dot r of
                     None \<Rightarrow> exponent_ok r
                   | Some r' \<Rightarrow>
                       (case digit_part r' of None \<Rightarrow> exponent_ok r' | Some r'' \<Rightarrow> exponent_ok r''))
              | None \<Rightarrow>
                  (case after_dot s of
                     None \<Rightarrow> False
                   | Some r' \<Rightarrow>
                       (case digit_part r' of None \<Rightarrow> False | Some r'' \<Rightarrow> exponent_ok r'')))"

definition is_numeric_value :: "ustr \<Rightarrow> bool" where
  "is_numeric_value v = (v \<noteq> [] \<and> v \<notin> set INVALID_STATES \<and> is_float v)"

text \<open>\<^verbatim>\<open>_parse_sensor_data\<close>: a well-formed state object has its \<^verbatim>\<open>state\<close>, so the
  result is never \<^verbatim>\<open>None\<close>.\<close>

definition parse_sensor_data :: "entity \<Rightarrow> reading option" where
  "parse_sensor_data result =
     Some \<lparr>r_value = state result,
           r_unit = dict_get (attributes result) UNIT_OF_MEASUREMENT [],
           r_name = dict_get (attributes result) FRIENDLY_NAME [],
           r_entity_id = entity_id result\<rparr>"

definition get_sensor_state :: "world \<Rightarrow> ustr \<Rightarrow> bot \<Rightarrow> reading option \<times> bot" where
  "get_sensor_state w eid s =
     (let (result, s') = hub_get_state w eid s
      in (case result of None \<Rightarrow> None | Some e \<Rightarrow> parse_sensor_data e, s'))"

fun kws_loop ::
  "world \<Rightarrow> (ustr \<times> ustr) list \<Rightarrow> (ustr \<times> reading) list \<Rightarrow> bot \<Rightarrow> (ustr \<times> reading) list \<times> bot" where
  "kws_loop w [] kws_data s = (kws_data, s)"
| "kws_loop w ((sensor_type, eid) # rest) kws_data s =
     (let (sensor_data, s') = get_sensor_state w eid s
      in case sensor_data of
           None \<Rightarrow> kws_loop w rest kws_data s'
         | Some r \<Rightarrow>
             if is_numeric_value (r_value r)
             then kws_loop w rest (dict_set sensor_type r kws_data) s'
             else kws_loop w rest kws_data s')"

definition get_kws_sensors_data ::
  "world \<Rightarrow> ustr \<Rightarrow> bot \<Rightarrow> (ustr \<times> reading) list option \<times> bot" where
  "get_kws_sensors_data w area_name s =
     (case map_of SENSORS_MAP area_name of
        None \<Rightarrow> (None, s)
      | Some sensors \<Rightarrow>
          (let (kws_data, s') = kws_loop w sensors [] s
           in (Some kws_data,
               s'\<lparr>sensors_cache := dict_set area_name kws_data (sensors_cache s')\<rparr>)))"

section \<open>The operations behind the API\<close>

datatype device = Device ustr ustr ustr ustr ustr "(ustr \<times> ustr) list"

record area_stats =
  st_total :: nat
  st_on :: nat
  st_off :: nat

record area_data =
  ad_area_name :: ustr
  ad_devices :: "device list"
  ad_sensors :: "(ustr \<times> reading) list"
  ad_stats :: area_stats
  ad_timestamp :: real

text \<open>The fields of \<^verbatim>\<open>Device\<close> are, in this order, \<^verbatim>\<open>entity_id\<close>, \<^verbatim>\<open>name\<close>,
  \<^verbatim>\<open>short_name\<close>, \<^verbatim>\<open>state\<close>, \<^verbatim>\<open>domain\<close> and \<^verbatim>\<open>attributes\<close>.\<close>

definition make_device :: "ustr \<Rightarrow> entity \<Rightarrow> device" where
  "make_device area_name device_data =
     Device (entity_id device_data)
       (dict_get (attributes device_data) FRIENDLY_NAME [])
       (shorten_name (dict_get (attributes device_data) FRIENDLY_NAME []) area_name)
       (state device_data)
       (domain_of (entity_id device_data))
       (attributes device_data)"

definition get_area_data_for_api :: "world \<Rightarrow> ustr \<Rightarrow> bot \<Rightarrow> area_data \<times> bot" where
  "get_area_data_for_api w area_name s =
     (let (devices_data, s1) = get_area_devices w area_name True s;
          (kws_data, s2) = get_kws_sensors_data w area_name s1;
          devices = map (make_device area_name) devices_data;
          (now, s3) = time_time w s2
      in (\<lparr>ad_area_name = area_name,
            ad_devices = devices,
            ad_sensors = (case kws_data of None \<Rightarrow> [] | Some k \<Rightarrow> k),
            ad_stats = \<lparr>st_total = length devices,
                        st_on = length (filter (\<lambda>d. state d = ON) devices_data),
                        st_off = length (filter (\<lambda>d. state d = OFF) devices_data)\<rparr>,
            ad_timestamp = now\<rparr>, s3))"

text \<open>\<^verbatim>\<open>get_device_state\<close>: the snapshot carries the entity id of the request.\<close>

definition get_device_state :: "world \<Rightarrow> ustr \<Rightarrow> bot \<Rightarrow> entity option \<times> bot" where
  "get_device_state w eid s =
     (let (result, s') = hub_get_state w eid s
      in (case result of None \<Rightarrow> None | Some e \<Rightarrow> Some (e\<lparr>entity_id := eid\<rparr>), s'))"

text \<open>\<^verbatim>\<open>control_device\<close>: one service call; the result is whether the hub replied.\<close>

definition control_device :: "world \<Rightarrow> ustr \<Rightarrow> ustr \<Rightarrow> bot \<Rightarrow> bool \<times> bot" where
  "control_device w eid action s = hub_call_service w (domain_of eid) action eid s"

section \<open>The API facade\<close>

record config =
  DEBUG :: bool
  SECRET_KEY :: ustr

definition BEARER :: ustr where
  "BEARER = [66, 101, 97, 114, 101, 114, 32]"

definition TOGGLE :: ustr where
  "TOGGLE = [116, 111, 103, 103, 108, 101]"

text \<open>The exceptions that the model raises.\<close>

datatype py_error = AttributeError | KeyError | TypeError

text \<open>The error texts of the facade, the last one the text of an exception that the
  handler has caught at its top.\<close>

datatype api_error =
    AuthRequired | BadToken | InvalidData | InvalidAction | ActionFailed | TooManyDevices
  | Unexpected py_error

text \<open>
  A value that \<^verbatim>\<open>request.json\<close> gives as an element of a list: a string, \<^verbatim>\<open>None\<close>,
  a boolean, an integer, a float, a list or an object. A float is given by its value and
  by the text that \<^verbatim>\<open>str\<close> makes of it, a list and an object by this text alone.
\<close>

datatype float_value = Finite real | PosInf | NegInf | NaN

datatype json_value =
    JString ustr
  | JNull
  | JBool bool
  | JInt int
  | JFloat float_value ustr
  | JArray ustr
  | JObject ustr

text \<open>The text of a value in an f-string.\<close>

definition str_int :: "int \<Rightarrow> ustr" where
  "str_int i = (if i < 0 then 45 # str_nat (nat (- i)) else str_nat (nat i))"

fun format_value :: "json_value \<Rightarrow> ustr" where
  "format_value (JString t) = t"
| "format_value JNull = [78, 111, 110, 101]"
| "format_value (JBool b) = (if b then [84, 114, 117, 101] else [70, 97, 108, 115, 101])"
| "format_value (JInt i) = str_int i"
| "format_value (JFloat v t) = t"
| "format_value (JArray t) = t"
| "format_value (JObject t) = t"

text \<open>
  A value as the key of a dictionary. Two values are the same key when they are equal:
  a boolean, an integer and a float are equal when their numbers are, \<^verbatim>\<open>True\<close> being 1
  and \<^verbatim>\<open>False\<close> 0. A list and an object cannot be hashed and are no key.
\<close>

datatype py_key = KStr ustr | KNum float_value | KNone

fun key_of :: "json_value \<Rightarrow> py_key option" where
  "key_of (JString t) = Some (KStr t)"
| "key_of JNull = Some KNone"
| "key_of (JBool b) = Some (KNum (Finite (if b then 1 else 0)))"
| "key_of (JInt i) = Some (KNum (Finite (of_int i)))"
| "key_of (JFloat v t) = Some (KNum v)"
| "key_of (JArray t) = None"
| "key_of (JObject t) = None"

text \<open>\<^verbatim>\<open>d[k] = v\<close> on a dictionary with such keys: the entry of an equal key keeps its
  key and its place and takes the value; a key that cannot be hashed raises.\<close>

fun setitem_loop :: "json_value \<Rightarrow> 'v \<Rightarrow> (json_value \<times> 'v) list \<Rightarrow> (json_value \<times> 'v) list" where
  "setitem_loop k v [] = [(k, v)]"
| "setitem_loop k v ((k', v') # d) =
     (if key_of k' = key_of k then (k', v) # d else (k', v') # setitem_loop k v d)"

definition dict_setitem ::
  "json_value \<Rightarrow> 'v \<Rightarrow> (json_value \<times> 'v) list \<Rightarrow> py_error + (json_value \<times> 'v) list" where
  "dict_setitem k v d = (if key_of k = None then Inl TypeError else Inr (setitem_loop k v d))"

text \<open>
  \<^verbatim>\<open>jsonify\<close> writes a dictionary with its keys sorted, and raises when two of its keys
  cannot be compared: strings are compared with strings and numbers with numbers.
\<close>

fun comparable :: "py_key option \<Rightarrow> py_key option \<Rightarrow> bool" where
  "comparable (Some (KStr a)) (Some (KStr b)) = True"
| "comparable (Some (KNum a)) (Some (KNum b)) = True"
| "comparable a b = False"

definition sortable :: "(json_value \<times> 'v) list \<Rightarrow> bool" where
  "sortable d =
     list_all (\<lambda>k. list_all (\<lambda>k'. key_of k = key_of k' \<or> comparable (key_of k) (key_of k'))
                       (map fst d)) (map fst d)"

text \<open>The keys of the dictionary are strings.\<close>

definition string_keys :: "(json_value \<times> 'v) list \<Rightarrow> bool" where
  "string_keys d = (\<forall>k\<in>fst ` set d. \<exists>t. k = JString t)"

text \<open>
  The value a batch reports for an element of the list: the dictionary that
  \<^verbatim>\<open>get_device_state\<close> returns, whose entry \<^verbatim>\<open>entity_id\<close> is the element itself and whose
  other entries are those of the record; \<^verbatim>\<open>None\<close>, which \<^verbatim>\<open>get_device_state\<close> returns
  when the hub gave no answer; or the dictionary with the text of an exception.
\<close>

datatype batch_item = Snapshot json_value entity | NoAnswer | ItemError py_error

text \<open>The bodies of the responses.\<close>

datatype api_body =
    ErrorBody api_error
  | ControlBody ustr ustr "entity option" real
  | BatchBody "(json_value \<times> batch_item) list" real

record response =
  status :: nat
  body :: api_body

text \<open>\<^verbatim>\<open>require_auth\<close>, applied to a handler and the \<^verbatim>\<open>Authorization\<close> header.\<close>

definition require_auth ::
  "config \<Rightarrow> ustr option \<Rightarrow> (bot \<Rightarrow> response \<times> bot) \<Rightarrow> bot \<Rightarrow> response \<times> bot" where
  "require_auth cfg auth_header f s =
     (if DEBUG cfg then f s
      else if auth_header = None \<or> auth_header = Some []
        then (\<lparr>status = 401, body = ErrorBody AuthRequired\<rparr>, s)
      else if auth_header \<noteq> Some (BEARER @ SECRET_KEY cfg)
        then (\<lparr>status = 403, body = ErrorBody BadToken\<rparr>, s)
      else f s)"

text \<open>A Python value of one of the three kinds that meet in the comparison of
  \<^verbatim>\<open>control_device\<close>; values of different kinds are not equal.\<close>

datatype pyval = PyNone | PyStr ustr | PyDict entity

definition state_value :: "entity option \<Rightarrow> pyval" where
  "state_value r = (case r of None \<Rightarrow> PyNone | Some e \<Rightarrow> PyDict e)"

record control_json =
  entity_id_field :: "ustr option"
  action_field :: "ustr option"

definition control_device_handler ::
  "world \<Rightarrow> control_json option \<Rightarrow> bot \<Rightarrow> response \<times> bot" where
  "control_device_handler w data s =
     (case data of
        None \<Rightarrow> (\<lparr>status = 400, body = ErrorBody InvalidData\<rparr>, s)
      | Some d \<Rightarrow>
          (case (entity_id_field d, action_field d) of
             (Some eid, Some action0) \<Rightarrow>
               if action0 \<notin> set [ON, OFF, TOGGLE]
               then (\<lparr>status = 400, body = ErrorBody InvalidAction\<rparr>, s)
               else
                 (let (action, s1) =
                        (if action0 = TOGGLE
                         then (let (current_state, s') = get_device_state w eid s
                               in (if state_value current_state = PyStr ON then OFF else ON, s'))
                         else (action0, s));
                      (success, s2) = control_device w eid action s1
                  in if success
                     then (let s3 = clear_cache s2;
                               (updated_state, s4) = get_device_state w eid s3;
                               (now, s5) = time_time w s4
                           in (\<lparr>status = 200,
                                 body = ControlBody eid action updated_state now\<rparr>, s5))
                     else (\<lparr>status = 500, body = ErrorBody ActionFailed\<rparr>, s2))
           | _ \<Rightarrow> (\<lparr>status = 400, body = ErrorBody InvalidData\<rparr>, s)))"

definition control_device_endpoint ::
  "config \<Rightarrow> world \<Rightarrow> ustr option \<Rightarrow> control_json option \<Rightarrow> bot \<Rightarrow> response \<times> bot" where
  "control_device_endpoint cfg w auth_header data s =
     require_auth cfg auth_header (control_device_handler w data) s"

text \<open>
  The body of a batch request: \<^verbatim>\<open>entity_ids\<close> may be missing, may be something
  that is not a list, or is a list of values.
\<close>

datatype ids_json = NotAList | IdList "json_value list"

text \<open>
  The loop of \<^verbatim>\<open>batch_get_devices\<close>, with the \<^verbatim>\<open>try\<close> in it. The state query is made
  with the text of the element. When the assignment to \<^verbatim>\<open>results\<close> raises, the assignment
  of the \<^verbatim>\<open>except\<close> clause is made with the same key; an exception of that one leaves
  the loop.
\<close>

fun batch_loop ::
  "world \<Rightarrow> json_value list \<Rightarrow> (json_value \<times> batch_item) list \<Rightarrow> bot
     \<Rightarrow> (py_error + (json_value \<times> batch_item) list) \<times> bot" where
  "batch_loop w [] results s = (Inr results, s)"
| "batch_loop w (eid # rest) results s =
     (let (device_data, s') = get_device_state w (format_value eid) s
      in case dict_setitem eid
                (case device_data of None \<Rightarrow> NoAnswer | Some e \<Rightarrow> Snapshot eid e)
                results of
           Inr results' \<Rightarrow> batch_loop w rest results' s'
         | Inl e \<Rightarrow>
             (case dict_setitem eid (ItemError e) results of
                Inr results' \<Rightarrow> batch_loop w rest results' s'
              | Inl e' \<Rightarrow> (Inl e', s')))"

definition batch_get_devices_handler ::
  "world \<Rightarrow> ids_json option option \<Rightarrow> bot \<Rightarrow> response \<times> bot" where
  "batch_get_devices_handler w data s =
     (case data of
        None \<Rightarrow> (\<lparr>status = 400, body = ErrorBody InvalidData\<rparr>, s)
      | Some None \<Rightarrow> (\<lparr>status = 400, body = ErrorBody InvalidData\<rparr>, s)
      | Some (Some NotAList) \<Rightarrow> (\<lparr>status = 400, body = ErrorBody TooManyDevices\<rparr>, s)
      | Some (Some (IdList entity_ids)) \<Rightarrow>
          if length entity_ids > 20
          then (\<lparr>status = 400, body = ErrorBody TooManyDevices\<rparr>, s)
          else
            (case batch_loop w entity_ids [] s of
               (Inl e, s1) \<Rightarrow> (\<lparr>status = 500, body = ErrorBody (Unexpected e)\<rparr>, s1)
             | (Inr results, s1) \<Rightarrow>
                 (let (now, s2) = time_time w s1
                  in if sortable results
                     then (\<lparr>status = 200, body = BatchBody results now\<rparr>, s2)
                     else (\<lparr>status = 500, body = ErrorBody (Unexpected TypeError)\<rparr>, s2))))"

definition batch_get_devices ::
  "config \<Rightarrow> world \<Rightarrow> ustr option \<Rightarrow> ids_json option option \<Rightarrow> bot \<Rightarrow> response \<times> bot" where
  "batch_get_devices cfg w auth_header data s =
     require_auth cfg auth_header (batch_get_devices_handler w data) s"

text \<open>The request passes \<^verbatim>\<open>require_auth\<close>.\<close>

definition authorised :: "config \<Rightarrow> ustr option \<Rightarrow> bool" where
  "authorised cfg auth_header = (DEBUG cfg \<or> auth_header = Some (BEARER @ SECRET_KEY cfg))"

section \<open>The chat bot\<close>

text \<open>
  The texts of the dialogue. The states of a session are \<^verbatim>\<open>main\<close> and \<^verbatim>\<open>house\<close>.
  The commands, in lower case: \<^verbatim>\<open>/start\<close>, \<^verbatim>\<open>obnovit\<close> (refresh), \<^verbatim>\<open>nazad\<close>
  (back), \<^verbatim>\<open>status vseh\<close> (status of all), \<^verbatim>\<open>status\<close>, \<^verbatim>\<open>dannye\<close> (data), and
  the tokens \<^verbatim>\<open>vkl\<close> (on) and \<^verbatim>\<open>vykl\<close> (off). The labels of the buttons are the
  same words with a capital, \<^verbatim>\<open>VKL\<close> and \<^verbatim>\<open>VYKL\<close>. \<^verbatim>\<open>Domik\<close> (house) and
  \<^verbatim>\<open>Obshchie\<close> (general) are the words that mark the name of an area.
\<close>

definition STATE_MAIN :: ustr where
  "STATE_MAIN = [109, 97, 105, 110]"

definition STATE_HOUSE :: ustr where
  "STATE_HOUSE = [104, 111, 117, 115, 101]"

definition CMD_START :: ustr where
  "CMD_START = [47, 115, 116, 97, 114, 116]"

definition CMD_REFRESH :: ustr where
  "CMD_REFRESH = [1086, 1073, 1085, 1086, 1074, 1080, 1090, 1100]"

definition CMD_BACK :: ustr where
  "CMD_BACK = [1085, 1072, 1079, 1072, 1076]"

definition CMD_STATUS_ALL :: ustr where
  "CMD_STATUS_ALL = [1089, 1090, 1072, 1090, 1091, 1089, 32, 1074, 1089, 1077, 1093]"

definition CMD_STATUS :: ustr where
  "CMD_STATUS = [1089, 1090, 1072, 1090, 1091, 1089]"

definition CMD_DATA :: ustr where
  "CMD_DATA = [1076, 1072, 1085, 1085, 1099, 1077]"

definition TOKEN_ON :: ustr where
  "TOKEN_ON = [1074, 1082, 1083]"

definition TOKEN_OFF :: ustr where
  "TOKEN_OFF = [1074, 1099, 1082, 1083]"

definition LABEL_ON :: ustr where
  "LABEL_ON = [1042, 1050, 1051]"

definition LABEL_OFF :: ustr where
  "LABEL_OFF = [1042, 1067, 1050, 1051]"

definition BTN_BACK :: ustr where
  "BTN_BACK = [1053, 1072, 1079, 1072, 1076]"

definition BTN_STATUS :: ustr where
  "BTN_STATUS = [1057, 1090, 1072, 1090, 1091, 1089]"

definition BTN_DATA :: ustr where
  "BTN_DATA = [1044, 1072, 1085, 1085, 1099, 1077]"

definition BTN_REFRESH :: ustr where
  "BTN_REFRESH = [1054, 1073, 1085, 1086, 1074, 1080, 1090, 1100]"

definition BTN_STATUS_ALL :: ustr where
  "BTN_STATUS_ALL = [1057, 1090, 1072, 1090, 1091, 1089, 32, 1074, 1089, 1077, 1093]"

definition DOMIK :: ustr where
  "DOMIK = [1044, 1086, 1084, 1080, 1082]"

definition OBSHCHIE :: ustr where
  "OBSHCHIE = [1054, 1073, 1097, 1080, 1077]"

text \<open>\<^verbatim>\<open>format_kws_data\<close>: a reading in the dictionary is a non-empty dictionary, so
  \<^verbatim>\<open>kws_data.get(k)\<close> is true exactly when the key is there.\<close>

definition kws_field ::
  "(ustr \<times> reading) list \<Rightarrow> ustr \<Rightarrow> (ustr \<Rightarrow> ustr \<Rightarrow> kws_line) \<Rightarrow> kws_line list" where
  "kws_field kws_data k mk =
     (case map_of kws_data k of None \<Rightarrow> [] | Some r \<Rightarrow> [mk (r_value r) (r_unit r)])"

definition kws_voltages :: "(ustr \<times> reading) list \<Rightarrow> (ustr \<times> ustr \<times> ustr) list" where
  "kws_voltages kws_data =
     concat (map (\<lambda>(phase, k). case map_of kws_data k of
                                   None \<Rightarrow> []
                                 | Some v \<Rightarrow> [(phase, r_value v, r_unit v)])
       [([76, 49], VOLTAGE_L1), ([76, 50], VOLTAGE_L2), ([76, 51], VOLTAGE_L3)])"

definition format_kws_data :: "(ustr \<times> reading) list option \<Rightarrow> message" where
  "format_kws_data kws =
     (case kws of
        None \<Rightarrow> SensorsUnavailable
      | Some kws_data \<Rightarrow>
          if kws_data = [] then SensorsUnavailable
          else
            (let voltages = kws_voltages kws_data;
                 lines = kws_field kws_data TEMPERATURE_INDOOR TemperatureIndoor
                   @ kws_field kws_data TEMPERATURE_OUTDOOR TemperatureOutdoor
                   @ kws_field kws_data HUMIDITY Humidity
                   @ kws_field kws_data BATTERY Battery
                   @ (if voltages \<noteq> [] then [Voltage voltages] else [])
                   @ kws_field kws_data TOTAL_ENERGY TotalEnergy
             in if lines \<noteq> [] then SensorData lines else SensorsTemporarilyUnavailable))"

text \<open>\<^verbatim>\<open>int(re.search(r'\d+', x).group())\<close>: the number written by the first run of
  digits, and \<^verbatim>\<open>None\<close> when there is no digit, where the source raises.\<close>

definition first_number :: "ustr \<Rightarrow> nat option" where
  "first_number x =
     (let digits = takeWhile is_digit (dropWhile (\<lambda>c. \<not> is_digit c) x)
      in if digits = [] then None else Some (foldl (\<lambda>a c. 10 * a + (c - 48)) 0 digits))"

text \<open>\<^verbatim>\<open>get_all_areas_list\<close> with its \<^verbatim>\<open>lru_cache\<close>: a call that raises stores
  nothing.\<close>

definition get_all_areas_list :: "world \<Rightarrow> bot \<Rightarrow> (py_error + ustr list) \<times> bot" where
  "get_all_areas_list w s =
     (case areas_list_memo s of
        Some areas \<Rightarrow> (Inr areas, s)
      | None \<Rightarrow>
          (let (grouped, s1) = load_areas_with_devices w False s;
               areas = map fst grouped;
               houses = filter (contains DOMIK) areas;
               others = filter (\<lambda>a. \<not> contains DOMIK a) areas
           in if list_ex (\<lambda>a. first_number a = None) houses then (Inl AttributeError, s1)
              else (let result =
                          sort_key (\<lambda>a. case first_number a of None \<Rightarrow> 0 | Some n \<Rightarrow> n) houses
                          @ others
                    in (Inr result, s1\<lparr>areas_list_memo := Some result\<rparr>))))"

definition device_label :: "entity \<Rightarrow> ustr" where
  "device_label device = dict_get (attributes device) FRIENDLY_NAME (entity_id device)"

definition create_house_menu :: "world \<Rightarrow> ustr \<Rightarrow> bot \<Rightarrow> ustr list list \<times> bot" where
  "create_house_menu w area_name s =
     (let (devices, s1) = get_area_devices w area_name False s
      in if devices = [] then ([[BTN_BACK]], s1)
         else
           ([[BTN_STATUS, BTN_DATA]]
            @ concat (map (\<lambda>device.
                [[(if state device = ON then LABEL_ON else LABEL_OFF) @ [32]
                    @ shorten_name (device_label device) area_name],
                 [(if state device = ON then LABEL_OFF else LABEL_ON) @ [32]
                    @ shorten_name (device_label device) area_name]])
                (take 6 devices))
            @ [[BTN_BACK]], s1))"

fun rows_of_two :: "'a list \<Rightarrow> 'a list list" where
  "rows_of_two [] = []"
| "rows_of_two [a] = [[a]]"
| "rows_of_two (a # b # r) = [a, b] # rows_of_two r"

definition create_main_menu :: "world \<Rightarrow> bot \<Rightarrow> (py_error + ustr list list) \<times> bot" where
  "create_main_menu w s =
     (let (r, s1) = get_all_areas_list w s
      in case r of
           Inl e \<Rightarrow> (Inl e, s1)
         | Inr areas \<Rightarrow>
             if areas = [] then (Inr [[BTN_REFRESH]], s1)
             else (Inr (rows_of_two (filter (contains DOMIK) areas)
                        @ map (\<lambda>area. [area]) (filter (\<lambda>a. \<not> contains DOMIK a) areas)
                        @ [[BTN_REFRESH, BTN_STATUS_ALL]]), s1))"

text \<open>
  \<^verbatim>\<open>send_message\<close>. The last argument but one is the area of the house menu, and
  \<^verbatim>\<open>None\<close> for the main menu; an empty area name gives the main menu too. An exception
  while the menu is built is caught: nothing is sent and the result is \<^verbatim>\<open>False\<close>.
\<close>

definition send_message ::
  "world \<Rightarrow> int \<Rightarrow> message \<Rightarrow> ustr option \<Rightarrow> bot \<Rightarrow> bool \<times> bot" where
  "send_message w chat txt house_menu s =
     (let (menu, s1) =
            (case house_menu of
               None \<Rightarrow> create_main_menu w s
             | Some area_name \<Rightarrow>
                 if area_name \<noteq> []
                 then (let (m, s') = create_house_menu w area_name s in (Inr m, s'))
                 else create_main_menu w s)
      in case menu of
           Inl e \<Rightarrow> (False, s1)
         | Inr kb \<Rightarrow>
             (let ok = send_reply w (length (outbox s1))
              in (ok, s1\<lparr>outbox := outbox s1
                          @ [\<lparr>chat_id = chat, text_sent = txt, keyboard = kb,
                               delivered = ok\<rparr>]\<rparr>)))"

definition set_user_state :: "int \<Rightarrow> ustr \<Rightarrow> ustr option \<Rightarrow> bot \<Rightarrow> bot" where
  "set_user_state chat st data s =
     s\<lparr>user_states := (user_states s)(chat := Some \<lparr>ustate = st, udata = data\<rparr>)\<rparr>"

definition get_user_state :: "int \<Rightarrow> bot \<Rightarrow> user_state" where
  "get_user_state chat s =
     (case user_states s chat of
        None \<Rightarrow> \<lparr>ustate = STATE_MAIN, udata = None\<rparr>
      | Some u \<Rightarrow> u)"

definition on_count :: "entity list \<Rightarrow> nat" where
  "on_count devices = length (filter (\<lambda>d. state d = ON) devices)"

definition show_area_status :: "world \<Rightarrow> int \<Rightarrow> ustr \<Rightarrow> bot \<Rightarrow> bot" where
  "show_area_status w chat area_name s =
     (let (devices, s1) = get_area_devices w area_name True s
      in if devices = [] then snd (send_message w chat (NoDevices area_name) (Some area_name) s1)
         else snd (send_message w chat
                (AreaStatus area_name (length devices) (on_count devices)
                   (map (\<lambda>device. (shorten_name (device_label device) area_name,
                                    state device = ON)) devices))
                (Some area_name) s1))"

definition show_all_houses_status :: "world \<Rightarrow> int \<Rightarrow> bot \<Rightarrow> py_error option \<times> bot" where
  "show_all_houses_status w chat s =
     (let s1 = clear_cache s;
          (areas, s2) = load_areas_with_devices w True s1;
          (r, s3) = get_all_areas_list w s2
      in case r of
           Inl e \<Rightarrow> (Some e, s3)
         | Inr areas_list \<Rightarrow>
             (let rows = map (\<lambda>area. (area, on_count (dict_get areas area []),
                                       length (dict_get areas area []))) areas_list
              in (None,
                  snd (send_message w chat
                         (AllStatus rows (sum_list (map (\<lambda>(a, n, k). n) rows))
                            (sum_list (map (\<lambda>(a, n, k). k) rows)))
                         None s3))))"

definition show_kws_data :: "world \<Rightarrow> int \<Rightarrow> ustr \<Rightarrow> bot \<Rightarrow> bot" where
  "show_kws_data w chat area_name s =
     (let (kws_data, s1) = get_kws_sensors_data w area_name s
      in snd (send_message w chat (format_kws_data kws_data) (Some area_name) s1))"

text \<open>\<^verbatim>\<open>device_name_pattern.sub('', text)\<close> for the pattern of alternatives
  \<^verbatim>\<open>vkl|vykl\<close>, ignoring case: at each position the first alternative that matches is
  removed.\<close>

fun sub_alternatives_ci :: "ustr list \<Rightarrow> nat \<Rightarrow> ustr \<Rightarrow> ustr" where
  "sub_alternatives_ci alts k [] = []"
| "sub_alternatives_ci alts (Suc k) (c # s) = sub_alternatives_ci alts k s"
| "sub_alternatives_ci alts 0 (c # s) =
     (case find (\<lambda>a. starts_with_ci a (c # s)) alts of
        None \<Rightarrow> c # sub_alternatives_ci alts 0 s
      | Some a \<Rightarrow>
          if a = [] then c # sub_alternatives_ci alts 0 s
          else sub_alternatives_ci alts (length a - 1) s)"

definition control_single_device :: "world \<Rightarrow> int \<Rightarrow> ustr \<Rightarrow> ustr \<Rightarrow> bot \<Rightarrow> bot" where
  "control_single_device w chat txt area_name s =
     (let action = (if contains TOKEN_ON (lower txt) then ON else OFF);
          device_short_name = strip (sub_alternatives_ci [TOKEN_ON, TOKEN_OFF] 0 txt);
          (devices, s1) = get_area_devices w area_name False s
      in case find (\<lambda>device.
                 shorten_name (dict_get (attributes device) FRIENDLY_NAME []) area_name
                   = device_short_name) devices of
           Some device \<Rightarrow>
             (let (ok, s2) = control_device w (entity_id device) action s1
              in if ok
                 then snd (send_message w chat (Switched device_short_name (action = ON))
                             (Some area_name) (clear_cache s2))
                 else snd (send_message w chat (ControlError device_short_name)
                             (Some area_name) s2))
         | None \<Rightarrow>
             snd (send_message w chat (DeviceNotFound device_short_name) (Some area_name) s1))"

definition handle_house_commands :: "world \<Rightarrow> int \<Rightarrow> ustr \<Rightarrow> ustr \<Rightarrow> bot \<Rightarrow> bot" where
  "handle_house_commands w chat txt area_name s =
     (let text_lower = lower txt
      in if text_lower = CMD_BACK
           then snd (send_message w chat ChooseHouse None (set_user_state chat STATE_MAIN None s))
         else if text_lower = CMD_DATA then show_kws_data w chat area_name s
         else if text_lower = CMD_STATUS then show_area_status w chat area_name s
         else if contains TOKEN_ON text_lower \<or> contains TOKEN_OFF text_lower
           then control_single_device w chat txt area_name s
         else snd (send_message w chat UnknownCommand (Some area_name) s))"

text \<open>
  The body of the \<^verbatim>\<open>try\<close> of \<^verbatim>\<open>handle_message\<close>, with the exception it may end in.
  In the source the line that tests for the four resetting commands is part of the
  comment before it, so the two statements after it are executed for every message:
  the state of the user is set to \<^verbatim>\<open>main\<close> and the local \<^verbatim>\<open>user_state\<close> is the
  dictionary with the one key \<^verbatim>\<open>state\<close>, which has no \<^verbatim>\<open>data\<close>.
\<close>

definition handle_message_body :: "world \<Rightarrow> int \<Rightarrow> ustr \<Rightarrow> bot \<Rightarrow> py_error option \<times> bot" where
  "handle_message_body w chat txt s =
     (let text_lower = lower txt;
          user_state0 = get_user_state chat s;
          s1 = set_user_state chat STATE_MAIN None s;
          user_state = \<lparr>ustate = STATE_MAIN, udata = None\<rparr>;
          s2 = (if text_lower = CMD_REFRESH then clear_cache s1 else s1)
      in if text_lower = CMD_START \<or> text_lower = CMD_REFRESH then
           (let (areas, s3) = load_areas_with_devices w True s2
            in (None,
                snd (send_message w chat
                       (Greeting (length (filter (contains DOMIK) (map fst areas)))
                          (sum_list (map (\<lambda>(a, devices). length devices) areas)))
                       None s3)))
         else if text_lower = CMD_STATUS_ALL then show_all_houses_status w chat s2
         else if ustate user_state = STATE_MAIN then
           (if contains DOMIK txt \<or> contains OBSHCHIE txt then
              (let (devices, s3) = get_area_devices w txt False s2
               in if devices \<noteq> [] then
                    (None,
                     snd (send_message w chat
                            (AreaSummary txt (length devices) (on_count devices)) (Some txt)
                            (set_user_state chat STATE_HOUSE (Some txt) s3)))
                  else (None, snd (send_message w chat (NoDevices txt) None s3)))
            else (None, snd (send_message w chat ChooseFromMenu None s2)))
         else if ustate user_state = STATE_HOUSE then
           (case udata user_state of
              None \<Rightarrow> (Some KeyError, s2)
            | Some area_name \<Rightarrow> (None, handle_house_commands w chat txt area_name s2))
         else (None, snd (send_message w chat UnknownCommand None s2)))"

definition handle_message :: "world \<Rightarrow> int \<Rightarrow> ustr \<Rightarrow> bot \<Rightarrow> bot" where
  "handle_message w chat txt s =
     (case handle_message_body w chat txt s of
        (None, s') \<Rightarrow> s'
      | (Some e, s') \<Rightarrow> snd (send_message w chat HandlerError None s'))"

section \<open>The polling loop\<close>

text \<open>
  An update of the messaging platform has its id and may have a message, which has its
  chat and may have a text. The result of a poll is a failure (no reply, or a reply that
  is not \<^verbatim>\<open>ok\<close>), a list of updates, or the interrupt that ends the loop. The loop of
  \<^verbatim>\<open>run_telegram_bot\<close> runs as long as polls come in: it is a recursion on the list of
  the results of its polls. Besides the local \<^verbatim>\<open>error_count\<close> and the bot, the state of
  the loop counts the times the loop has called \<^verbatim>\<open>_clear_cache\<close>.
\<close>

datatype update = Update int "(int \<times> ustr option) option"

datatype poll = PollFailed | PollOk "update list" | Interrupt

record loop_state =
  error_count :: nat
  invalidations :: nat
  the_bot :: bot

fun process_updates :: "world \<Rightarrow> update list \<Rightarrow> bot \<Rightarrow> bot" where
  "process_updates w [] s = s"
| "process_updates w (Update uid msg # rest) s =
     process_updates w rest
       (case msg of
          Some (chat, Some txt) \<Rightarrow> handle_message w chat txt (s\<lparr>last_id := uid\<rparr>)
        | _ \<Rightarrow> s\<lparr>last_id := uid\<rparr>)"

definition poll_step :: "world \<Rightarrow> poll \<Rightarrow> loop_state \<Rightarrow> loop_state" where
  "poll_step w p ls =
     (case p of
        PollOk updates \<Rightarrow>
          ls\<lparr>the_bot := process_updates w updates (the_bot ls), error_count := 0\<rparr>
      | PollFailed \<Rightarrow>
          (let n = error_count ls + 1
           in if n > 3
              then ls\<lparr>the_bot := clear_cache (the_bot ls), error_count := 0,
                      invalidations := invalidations ls + 1\<rparr>
              else ls\<lparr>error_count := n\<rparr>)
      | Interrupt \<Rightarrow> ls)"

fun run_loop :: "world \<Rightarrow> poll list \<Rightarrow> loop_state \<Rightarrow> loop_state" where
  "run_loop w [] ls = ls"
| "run_loop w (p # ps) ls = (if p = Interrupt then ls else run_loop w ps (poll_step w p ls))"

definition run_telegram_bot :: "world \<Rightarrow> poll list \<Rightarrow> bot \<Rightarrow> loop_state" where
  "run_telegram_bot w polls s =
     run_loop w polls \<lparr>error_count = 0, invalidations = 0, the_bot = s\<rparr>"

section \<open>Verified properties\<close>

subsection \<open>Short names\<close>

lemma is_space_32: "is_space 32"
  by (simp add: is_space_def)

lemma norm_ws_Cons:
  "norm_ws (c # z) = ((is_space c \<longrightarrow> c = 32 \<and> (z \<noteq> [] \<longrightarrow> \<not> is_space (hd z))) \<and> norm_ws z)"
  by (cases z) auto

lemma collapse_spaces_Nil_iff: "collapse_spaces y = [] \<longleftrightarrow> y = []"
  by (cases y) auto

lemma hd_collapse_spaces:
  "y \<noteq> [] \<Longrightarrow> is_space (hd (collapse_spaces y)) = is_space (hd y)"
  by (cases y) (auto simp: is_space_32)

lemma norm_ws_collapse_spaces: "norm_ws (collapse_spaces x)"
proof (induction x rule: collapse_spaces.induct)
  case 1
  show ?case by simp
next
  case (2 c s)
  show ?case
  proof (cases "is_space c")
    case True
    let ?y = "dropWhile is_space s"
    have "?y \<noteq> [] \<Longrightarrow> \<not> is_space (hd (collapse_spaces ?y))"
      using hd_dropWhile [of is_space s] by (simp add: hd_collapse_spaces)
    with True 2 show ?thesis
      by (simp add: norm_ws_Cons collapse_spaces_Nil_iff)
  next
    case False
    with 2 show ?thesis by (simp add: norm_ws_Cons)
  qed
qed

lemma dropWhile_hd_id: "s = [] \<or> \<not> P (hd s) \<Longrightarrow> dropWhile P s = s"
  by (cases s) auto

lemma collapse_spaces_norm_ws: "norm_ws s \<Longrightarrow> collapse_spaces s = s"
proof (induction s)
  case Nil
  show ?case by simp
next
  case (Cons c z)
  then have z: "collapse_spaces z = z" by (simp add: norm_ws_Cons)
  show ?case
  proof (cases "is_space c")
    case True
    with Cons.prems have "c = 32" and "z = [] \<or> \<not> is_space (hd z)"
      by (auto simp: norm_ws_Cons)
    then show ?thesis using True z by (simp add: dropWhile_hd_id)
  next
    case False
    then show ?thesis using z by simp
  qed
qed

lemma norm_ws_append_left: "norm_ws (xs @ ys) \<Longrightarrow> norm_ws xs"
  by (induction xs) (auto simp: norm_ws_Cons)

lemma norm_ws_append_right: "norm_ws (xs @ ys) \<Longrightarrow> norm_ws ys"
  by (induction xs) (auto simp: norm_ws_Cons)

lemma norm_ws_append:
  "norm_ws xs \<Longrightarrow> norm_ws ys \<Longrightarrow> ys = [] \<or> \<not> is_space (hd ys) \<Longrightarrow> norm_ws (xs @ ys)"
  by (induction xs) (auto simp: norm_ws_Cons hd_append)

lemma rev_dropWhile_split: "t = rev (dropWhile P (rev t)) @ rev (takeWhile P (rev t))"
proof -
  have "rev (takeWhile P (rev t) @ dropWhile P (rev t)) = rev (rev t)"
    by (simp only: takeWhile_dropWhile_id)
  then show ?thesis by (simp only: rev_append rev_rev_ident)
qed

lemma strip_split:
  "\<exists>a b. s = a @ strip s @ b"
proof -
  let ?t = "dropWhile is_space s"
  have 1: "s = takeWhile is_space s @ ?t" by simp
  have 2: "?t = strip s @ rev (takeWhile is_space (rev ?t))"
    unfolding strip_def by (rule rev_dropWhile_split)
  from 1 2 have "s = takeWhile is_space s @ strip s @ rev (takeWhile is_space (rev ?t))"
    by simp
  then show ?thesis by blast
qed

lemma norm_ws_strip: "norm_ws s \<Longrightarrow> norm_ws (strip s)"
proof -
  assume n: "norm_ws s"
  obtain a b where "s = a @ strip s @ b" using strip_split by blast
  with n have "norm_ws (a @ strip s @ b)" by simp
  then show ?thesis using norm_ws_append_left norm_ws_append_right by blast
qed

lemma strip_ends:
  assumes "strip s \<noteq> []"
  shows "\<not> is_space (hd (strip s))" and "\<not> is_space (last (strip s))"
proof -
  let ?t = "dropWhile is_space s"
  let ?u = "dropWhile is_space (rev ?t)"
  from assms have u: "?u \<noteq> []" by (simp add: strip_def)
  then have "\<not> is_space (hd ?u)" by (rule hd_dropWhile)
  then show "\<not> is_space (last (strip s))" using u by (simp add: strip_def last_rev)
  have t: "?t \<noteq> []"
  proof
    assume "?t = []"
    then have "?u = []" by (simp only: rev.simps dropWhile.simps)
    with u show False by simp
  qed
  then have nt: "\<not> is_space (hd ?t)" by (rule hd_dropWhile)
  have "?t = strip s @ rev (takeWhile is_space (rev ?t))"
    unfolding strip_def by (rule rev_dropWhile_split)
  then have "hd ?t = hd (strip s)" using assms by (metis hd_append2)
  with nt show "\<not> is_space (hd (strip s))" by simp
qed

lemma tidy_normalise: "tidy (strip (collapse_spaces x))"
  unfolding tidy_def using norm_ws_strip [OF norm_ws_collapse_spaces] strip_ends by blast

lemma strip_tidy: "tidy s \<Longrightarrow> strip s = s"
proof (cases "s = []")
  case True
  then show ?thesis by (simp add: strip_def)
next
  case False
  assume "tidy s"
  with False have h: "\<not> is_space (hd s)" and l: "\<not> is_space (last s)"
    by (auto simp: tidy_def)
  from h have 1: "dropWhile is_space s = s" by (simp add: dropWhile_hd_id)
  from l False have "\<not> is_space (hd (rev s))" by (simp add: hd_rev)
  then have "dropWhile is_space (rev s) = rev s" by (simp add: dropWhile_hd_id)
  with 1 show ?thesis by (simp add: strip_def)
qed

lemma normalise_tidy: "tidy s \<Longrightarrow> strip (collapse_spaces s) = s"
  using collapse_spaces_norm_ws strip_tidy by (simp add: tidy_def)

lemma tidy_truncated:
  assumes "tidy c" and "12 < length c"
  shows "tidy (take 12 c @ ELLIPSIS)"
proof -
  from assms have c: "c \<noteq> []" by auto
  have "norm_ws (take 12 c @ drop 12 c)" using assms by (simp add: tidy_def)
  then have "norm_ws (take 12 c)" by (rule norm_ws_append_left)
  moreover have "norm_ws ELLIPSIS" and e: "\<not> is_space (hd ELLIPSIS)"
    by (simp_all add: ELLIPSIS_def is_space_def)
  ultimately have n: "norm_ws (take 12 c @ ELLIPSIS)" by (simp add: norm_ws_append)
  have "hd (take 12 c @ ELLIPSIS) = hd c" using c by (cases c) auto
  moreover have "\<not> is_space (hd c)" using assms c by (simp add: tidy_def)
  moreover have "\<not> is_space (last (take 12 c @ ELLIPSIS))"
    by (simp add: ELLIPSIS_def is_space_def)
  ultimately show ?thesis using n by (simp add: tidy_def)
qed

lemma tidy_placeholder: "tidy DEVICE_PLACEHOLDER"
  by (simp add: tidy_def DEVICE_PLACEHOLDER_def is_space_def)

lemma remove_words_unchanged:
  "\<forall>w\<in>set ws. replace_empty w r = r \<Longrightarrow> remove_words ws r = r"
  by (induction ws) auto

lemma tidy_shorten_name_iter: "tidy (shorten_name_iter ws name area_name)"
  by (simp add: shorten_name_iter_def Let_def tidy_truncated tidy_normalise tidy_placeholder)

lemma finish_tidy:
  assumes "r = shorten_name_iter ws name area_name"
  shows "(if length r > 12 then take 12 r @ ELLIPSIS
          else if r \<noteq> [] then r else DEVICE_PLACEHOLDER) = r"
proof -
  let ?c = "strip (collapse_spaces (remove_words ws (sub_empty_ci area_name name)))"
  show ?thesis
  proof (cases "length ?c > 12")
    case True
    then have "r = take 12 ?c @ ELLIPSIS" using assms by (simp add: shorten_name_iter_def)
    moreover from True have "length (take 12 ?c @ ELLIPSIS) = 15"
      by (simp add: ELLIPSIS_def)
    moreover from True have "take 12 (take 12 ?c @ ELLIPSIS) = take 12 ?c" by simp
    ultimately show ?thesis by simp
  next
    case False
    show ?thesis
    proof (cases "?c = []")
      case True
      then have "r = DEVICE_PLACEHOLDER" using assms by (simp add: shorten_name_iter_def)
      then show ?thesis by (simp add: DEVICE_PLACEHOLDER_def)
    next
      case nonempty: False
      with False have "r = ?c" using assms by (simp add: shorten_name_iter_def)
      with False nonempty show ?thesis by simp
    qed
  qed
qed

text \<open>
  Claim C5, as amended. Deriving a short name from an already derived short name, with
  the same group context and the same iteration order of the stoplist, gives the same
  string whenever the derived name is left unchanged by the removal of the group label
  (ignoring case) and by the removal of every stoplist word, that is, whenever it
  contains neither the label nor a stoplist word.
\<close>

theorem shorten_name_idempotent_when_clean:
  assumes "sub_empty_ci area_name (shorten_name_iter ws name area_name)
             = shorten_name_iter ws name area_name"
    and "\<forall>w\<in>set ws. replace_empty w (shorten_name_iter ws name area_name)
             = shorten_name_iter ws name area_name"
  shows "shorten_name_iter ws (shorten_name_iter ws name area_name) area_name
           = shorten_name_iter ws name area_name"
proof -
  define r where "r = shorten_name_iter ws name area_name"
  have "tidy r" unfolding r_def by (rule tidy_shorten_name_iter)
  then have n: "strip (collapse_spaces r) = r" by (rule normalise_tidy)
  have w: "remove_words ws r = r" using assms(2) unfolding r_def by (rule remove_words_unchanged)
  have a: "sub_empty_ci area_name r = r" using assms(1) unfolding r_def .
  have "shorten_name_iter ws r area_name =
        (if length r > 12 then take 12 r @ ELLIPSIS
         else if r \<noteq> [] then r else DEVICE_PLACEHOLDER)"
    by (simp add: shorten_name_iter_def a w n)
  also have "\<dots> = r" using r_def by (rule finish_tidy)
  finally show ?thesis unfolding r_def .
qed

text \<open>
  A witness: the display name \<^verbatim>\<open>"Domik 3 Lamp"\<close> in the group \<^verbatim>\<open>"Domik 3"\<close>
  has the short name \<^verbatim>\<open>"Lamp"\<close>, which contains neither the label nor a stoplist
  word (the stoplist has \<^verbatim>\<open>lamp\<close> in lower case only).
\<close>

theorem shorten_name_idempotent_when_clean_witness:
  "shorten_name_iter WORDS_TO_REMOVE
     (shorten_name_iter WORDS_TO_REMOVE
        [1044, 1086, 1084, 1080, 1082, 32, 51, 32, 76, 97, 109, 112]
        [1044, 1086, 1084, 1080, 1082, 32, 51])
     [1044, 1086, 1084, 1080, 1082, 32, 51]
   = [76, 97, 109, 112]"
proof -
  let ?N = "[1044, 1086, 1084, 1080, 1082, 32, 51, 32, 76, 97, 109, 112] :: ustr"
  let ?A = "[1044, 1086, 1084, 1080, 1082, 32, 51] :: ustr"
  have v: "shorten_name_iter WORDS_TO_REMOVE ?N ?A = [76, 97, 109, 112]"
    by (simp add: shorten_name_iter_def WORDS_TO_REMOVE_def replace_empty_def
        sub_empty_ci_def strip_def is_space_def lower_cp_def)
  have h1: "sub_empty_ci ?A (shorten_name_iter WORDS_TO_REMOVE ?N ?A)
              = shorten_name_iter WORDS_TO_REMOVE ?N ?A"
    unfolding v by (simp add: sub_empty_ci_def lower_cp_def)
  have h2: "\<forall>w\<in>set WORDS_TO_REMOVE.
              replace_empty w (shorten_name_iter WORDS_TO_REMOVE ?N ?A)
              = shorten_name_iter WORDS_TO_REMOVE ?N ?A"
    unfolding v by (simp add: WORDS_TO_REMOVE_def replace_empty_def)
  show ?thesis
    using shorten_name_idempotent_when_clean [OF h1 h2] v by simp
qed

text \<open>
  Claim C5, as stated, fails: the stoplist words are removed in one pass, and a removal
  can put a stoplist word together that was not there before. The display name
  \<^verbatim>\<open>"liglightht"\<close> in the group \<^verbatim>\<open>"Domik 1"\<close> has the short name
  \<^verbatim>\<open>"light"\<close>, and the short name of \<^verbatim>\<open>"light"\<close> is the placeholder.
\<close>

theorem shorten_name_not_idempotent:
  "shorten_name (shorten_name [108, 105, 103, 108, 105, 103, 104, 116, 104, 116]
                   [1044, 1086, 1084, 1080, 1082, 32, 49])
                [1044, 1086, 1084, 1080, 1082, 32, 49]
   \<noteq> shorten_name [108, 105, 103, 108, 105, 103, 104, 116, 104, 116]
                   [1044, 1086, 1084, 1080, 1082, 32, 49]"
  by (simp add: shorten_name_def shorten_name_iter_def WORDS_TO_REMOVE_def replace_empty_def
      sub_empty_ci_def strip_def is_space_def lower_cp_def ELLIPSIS_def
      DEVICE_PLACEHOLDER_def)

subsection \<open>The pattern table and the grouping\<close>

lemma map_fst_dict_append: "map fst (dict_append k v d) = map fst d"
  by (induction d) auto

lemma dict_get_dict_append:
  "distinct (map fst d) \<Longrightarrow>
   dict_get (dict_append k v d) g [] =
     (if g = k \<and> k \<in> fst ` set d then dict_get d g [] @ [v] else dict_get d g [])"
proof (induction d)
  case Nil
  show ?case by (simp add: dict_get_def)
next
  case (Cons e d)
  obtain k' vs where e: "e = (k', vs)" by (cases e)
  from Cons.prems e have k': "k' \<notin> fst ` set d" and dist: "distinct (map fst d)"
    by auto
  show ?case
  proof (cases "k' = k")
    case True
    with k' show ?thesis unfolding e by (auto simp: dict_get_def)
  next
    case False
    have "dict_get (dict_append k v (e # d)) g [] =
          (if g = k' then vs else dict_get (dict_append k v d) g [])"
      using False unfolding e by (simp add: dict_get_def)
    also have "\<dots> = (if g = k' then vs
                      else if g = k \<and> k \<in> fst ` set d then dict_get d g [] @ [v]
                      else dict_get d g [])"
      using Cons.IH [OF dist] by simp
    also have "\<dots> = (if g = k \<and> k \<in> fst ` set (e # d) then dict_get (e # d) g [] @ [v]
                      else dict_get (e # d) g [])"
      using False unfolding e by (auto simp: dict_get_def)
    finally show ?thesis .
  qed
qed

lemma range_1_10: "[1..<11] = [1, 2, 3, 4, 5, 6, 7, 8, 9, 10 :: nat]"
  by code_simp

lemma house_names: "map house_name [1..<11] =
  [[1044, 1086, 1084, 1080, 1082, 32, 49], [1044, 1086, 1084, 1080, 1082, 32, 50],
   [1044, 1086, 1084, 1080, 1082, 32, 51], [1044, 1086, 1084, 1080, 1082, 32, 52],
   [1044, 1086, 1084, 1080, 1082, 32, 53], [1044, 1086, 1084, 1080, 1082, 32, 54],
   [1044, 1086, 1084, 1080, 1082, 32, 55], [1044, 1086, 1084, 1080, 1082, 32, 56],
   [1044, 1086, 1084, 1080, 1082, 32, 57], [1044, 1086, 1084, 1080, 1082, 32, 49, 48]]"
  unfolding range_1_10 by (simp add: house_name_def HOUSE_PREFIX_def str_nat.simps)

lemma distinct_house_names: "distinct (map house_name [1..<11])"
  unfolding house_names by simp

lemma general_not_house: "GENERAL_AREA \<notin> set (map house_name [1..<11])"
  unfolding house_names by (simp add: GENERAL_AREA_def)

lemma house_name_inj:
  "i \<in> set [1..<11] \<Longrightarrow> j \<in> set [1..<11] \<Longrightarrow> house_name i = house_name j \<Longrightarrow> i = j"
  using distinct_house_names by (simp add: distinct_map inj_on_def)

text \<open>The patterns of group \<^verbatim>\<open>i\<close> after \<^verbatim>\<open>_compile_patterns\<close>.\<close>

lemma house_patterns_table:
  "HOUSE_PATTERNS =
     map (\<lambda>i. (house_name i,
                house_patterns i @ (if i = 1 then [[Lit SENSOR_LABEL]] else [])))
       [1..<11]"
  unfolding HOUSE_PATTERNS_def range_1_10
  by (simp add: house_name_def HOUSE_PREFIX_def str_nat.simps)

lemma map_of_indexed:
  "distinct (map f is) \<Longrightarrow> i \<in> set is \<Longrightarrow> map_of (map (\<lambda>i. (f i, P i)) is) (f i) = Some (P i)"
  by (induction "is") (auto, metis imageI)

lemma assign_loop_indexed:
  "assign_loop (map (\<lambda>i. (f i, P i)) is) n =
     (case find (\<lambda>i. list_ex (\<lambda>pattern. re_search pattern n) (P i)) is of
        None \<Rightarrow> GENERAL_AREA | Some i \<Rightarrow> f i)"
  by (induction "is") auto

lemma house_matches_indexed:
  "i \<in> set [1..<11] \<Longrightarrow>
   house_matches i n =
     list_ex (\<lambda>pattern. re_search pattern (lower n))
       (house_patterns i @ (if i = 1 then [[Lit SENSOR_LABEL]] else []))"
  unfolding house_matches_def house_patterns_table
  by (subst map_of_indexed [OF distinct_house_names]) simp_all

lemma assign_find:
  "assign_device_to_house n =
     (case find (\<lambda>i. house_matches i n) [1..<11] of
        None \<Rightarrow> GENERAL_AREA | Some i \<Rightarrow> house_name i)"
proof -
  let ?M = "\<lambda>i. list_ex (\<lambda>pattern. re_search pattern (lower n))
       (house_patterns i @ (if i = 1 then [[Lit SENSOR_LABEL]] else []))"
  have "find ?M [1..<11] = find (\<lambda>i. house_matches i n) [1..<11]"
    by (rule find_cong) (simp_all add: house_matches_indexed)
  then show ?thesis
    unfolding assign_device_to_house_def house_patterns_table assign_loop_indexed by simp
qed

lemma assign_no_match:
  assumes "\<forall>i. 1 \<le> i \<and> i \<le> 10 \<longrightarrow> \<not> house_matches i n"
  shows "assign_device_to_house n = GENERAL_AREA"
proof -
  have "find (\<lambda>i. house_matches i n) [1..<11] = None"
    using assms by (auto simp: find_None_iff)
  then show ?thesis by (simp add: assign_find)
qed

lemma assign_first_match:
  assumes "1 \<le> i" and "i \<le> 10" and "house_matches i n"
    and "\<forall>j. 1 \<le> j \<and> j < i \<longrightarrow> \<not> house_matches j n"
  shows "assign_device_to_house n = house_name i"
proof -
  have "find (\<lambda>i. house_matches i n) [1..<11] = Some i"
    unfolding find_Some_iff
  proof (intro exI [of _ "i - 1"] conjI allI impI)
    show "i - 1 < length [1..<11]" using assms by simp
    show "house_matches ([1..<11] ! (i - 1)) n" using assms by simp
    show "i = [1..<11] ! (i - 1)" using assms by simp
    fix j assume "j < i - 1"
    then show "\<not> house_matches ([1..<11] ! j) n" using assms by simp
  qed
  then show ?thesis by (simp add: assign_find)
qed

lemma assign_in_houses: "assign_device_to_house n \<in> fst ` set empty_houses"
proof (cases "find (\<lambda>i. house_matches i n) [1..<11]")
  case None
  then show ?thesis by (simp add: assign_find empty_houses_def)
next
  case (Some i)
  then have "i \<in> set [1..<11]" by (auto simp: find_Some_iff)
  then have "house_name i \<in> house_name ` set [1..<11]" by (rule imageI)
  with Some show ?thesis by (simp add: assign_find empty_houses_def image_Un image_image)
qed

lemma house_name_1_in_table:
  "house_name 1 \<in> fst ` set (map (\<lambda>i. (house_name i, house_patterns i)) [1..<11])"
  unfolding range_1_10 by simp

lemma distinct_empty_houses: "distinct (map fst empty_houses)"
  using distinct_house_names general_not_house
  by (simp add: empty_houses_def comp_def)

lemma group_loop_keys: "map fst (group_loop ds h) = map fst h"
  by (induction ds arbitrary: h) (simp_all add: map_fst_dict_append)

lemma dict_get_group_loop:
  "distinct (map fst h) \<Longrightarrow> fst ` set h = fst ` set empty_houses \<Longrightarrow>
   dict_get (group_loop ds h) g [] =
     dict_get h g []
       @ filter (\<lambda>d. assign_device_to_house (dict_get (attributes d) FRIENDLY_NAME []) = g) ds"
proof (induction ds arbitrary: h)
  case Nil
  show ?case by simp
next
  case (Cons d ds)
  let ?k = "assign_device_to_house (dict_get (attributes d) FRIENDLY_NAME [])"
  let ?h = "dict_append ?k d h"
  have keys: "map fst ?h = map fst h" by (rule map_fst_dict_append)
  then have d: "distinct (map fst ?h)" using Cons.prems by simp
  have "set (map fst ?h) = set (map fst h)" using keys by simp
  then have s: "fst ` set ?h = fst ` set empty_houses" using Cons.prems by simp
  have k: "?k \<in> fst ` set h" using assign_in_houses Cons.prems by simp
  have "dict_get (group_loop (d # ds) h) g [] = dict_get (group_loop ds ?h) g []" by simp
  also have "\<dots> = dict_get ?h g []
      @ filter (\<lambda>d. assign_device_to_house (dict_get (attributes d) FRIENDLY_NAME []) = g) ds"
    by (rule Cons.IH [OF d s])
  also have "dict_get ?h g [] = (if g = ?k then dict_get h g [] @ [d] else dict_get h g [])"
    using dict_get_dict_append [OF Cons.prems(1), of ?k d g] k by simp
  finally show ?case by auto
qed

lemma dict_get_all_empty: "\<forall>(k, v)\<in>set h. v = [] \<Longrightarrow> dict_get h g [] = []"
  by (induction h) (auto simp: dict_get_def)

lemma map_of_filter_absent: "g \<notin> fst ` set h \<Longrightarrow> map_of (filter P h) g = None"
  by (induction h) auto

lemma dict_get_drop_empty:
  "distinct (map fst h) \<Longrightarrow>
   dict_get (filter (\<lambda>(k, v). v \<noteq> []) h) g [] = dict_get h g []"
  by (induction h) (auto simp: dict_get_def map_of_filter_absent)

lemma dict_get_group_devices:
  "dict_get (group_devices devs) g [] =
     filter (\<lambda>d. is_controllable_device (entity_id d) \<and>
                 assign_device_to_house (dict_get (attributes d) FRIENDLY_NAME []) = g) devs"
proof -
  have e: "dict_get empty_houses g [] = []"
    by (rule dict_get_all_empty) (auto simp: empty_houses_def)
  have "distinct (map fst (group_loop ds empty_houses))" for ds
    unfolding group_loop_keys by (rule distinct_empty_houses)
  then show ?thesis
    unfolding group_devices_def Let_def
    by (simp add: dict_get_drop_empty dict_get_group_loop [OF distinct_empty_houses refl] e
        conj_commute)
qed

lemma lower_cp_idem: "lower_cp (lower_cp c) = lower_cp c"
  by (simp add: lower_cp_def) presburger

lemma lower_idem: "lower (lower s) = lower s"
  by (simp add: lower_def lower_cp_idem)

text \<open>
  Claim C6. A display name is assigned to the first group, in the order 1 to 10, that
  has a pattern matching it, and to the general bucket when no group has one; the match
  ignores case, so two names that differ in case only are assigned alike. In the result
  of the grouping the list of a group is exactly the controllable devices assigned to
  it, in fetch order: every controllable device is in the list of its group and in no
  other.
\<close>

theorem assign_first_matching_group:
  "((\<forall>i. 1 \<le> i \<and> i \<le> 10 \<longrightarrow> \<not> house_matches i n)
      \<longrightarrow> assign_device_to_house n = GENERAL_AREA) \<and>
   (1 \<le> i \<and> i \<le> 10 \<and> house_matches i n \<and> (\<forall>j. 1 \<le> j \<and> j < i \<longrightarrow> \<not> house_matches j n)
      \<longrightarrow> assign_device_to_house n = house_name i) \<and>
   (lower n = lower m \<longrightarrow> assign_device_to_house n = assign_device_to_house m) \<and>
   dict_get (group_devices devs) g [] =
     filter (\<lambda>d. is_controllable_device (entity_id d) \<and>
                 assign_device_to_house (dict_get (attributes d) FRIENDLY_NAME []) = g) devs"
proof (intro conjI impI)
  assume "\<forall>i. 1 \<le> i \<and> i \<le> 10 \<longrightarrow> \<not> house_matches i n"
  then show "assign_device_to_house n = GENERAL_AREA" by (rule assign_no_match)
next
  assume "1 \<le> i \<and> i \<le> 10 \<and> house_matches i n \<and> (\<forall>j. 1 \<le> j \<and> j < i \<longrightarrow> \<not> house_matches j n)"
  then show "assign_device_to_house n = house_name i" by (simp add: assign_first_match)
next
  assume "lower n = lower m"
  then show "assign_device_to_house n = assign_device_to_house m"
    by (simp add: assign_device_to_house_def)
next
  show "dict_get (group_devices devs) g [] =
     filter (\<lambda>d. is_controllable_device (entity_id d) \<and>
                 assign_device_to_house (dict_get (attributes d) FRIENDLY_NAME []) = g) devs"
    by (rule dict_get_group_devices)
qed

text \<open>
  A witness: \<^verbatim>\<open>"DOMIK 3 Lamp"\<close> (in Cyrillic capitals) matches no pattern of the groups
  1 and 2 and a pattern of group 3; \<^verbatim>\<open>"Lamp"\<close> matches no pattern at all.
\<close>

theorem assign_first_matching_group_witness:
  "assign_device_to_house [1044, 1054, 1052, 1048, 1050, 32, 51, 32, 76, 97, 109, 112]
     = house_name 3 \<and>
   assign_device_to_house [76, 97, 109, 112] = GENERAL_AREA"
proof -
  let ?N = "[1044, 1054, 1052, 1048, 1050, 32, 51, 32, 76, 97, 109, 112] :: ustr"
  let ?L = "[76, 97, 109, 112] :: ustr"
  note ev = house_matches_indexed house_patterns_def SENSOR_LABEL_def re_search_def
    lower_def lower_cp_def str_nat.simps is_space_def is_word_def word_boundary_def
  have m3: "house_matches 3 ?N" by (simp add: ev)
  have n1: "\<not> house_matches 1 ?N" by (simp add: ev)
  have n2: "\<not> house_matches 2 ?N" by (simp add: ev)
  have "j = 1 \<or> j = 2" if "1 \<le> j \<and> j < 3" for j :: nat using that by arith
  with n1 n2 have lt: "\<forall>j. 1 \<le> j \<and> j < 3 \<longrightarrow> \<not> house_matches j ?N" by blast
  have l: "\<not> house_matches 1 ?L" "\<not> house_matches 2 ?L" "\<not> house_matches 3 ?L"
    "\<not> house_matches 4 ?L" "\<not> house_matches 5 ?L" "\<not> house_matches 6 ?L"
    "\<not> house_matches 7 ?L" "\<not> house_matches 8 ?L" "\<not> house_matches 9 ?L"
    "\<not> house_matches 10 ?L"
    by (simp_all add: ev)
  have "j = 1 \<or> j = 2 \<or> j = 3 \<or> j = 4 \<or> j = 5 \<or> j = 6 \<or> j = 7 \<or> j = 8 \<or> j = 9 \<or> j = 10"
    if "1 \<le> j \<and> j \<le> 10" for j :: nat using that by arith
  with l have none: "\<forall>i. 1 \<le> i \<and> i \<le> 10 \<longrightarrow> \<not> house_matches i ?L" by blast
  show ?thesis
    using assign_first_matching_group [of ?N 3] assign_first_matching_group [of ?L]
      m3 lt none
    by simp
qed

subsection \<open>The cache layer\<close>

lemma get_all_devices_cached:
  "all_devices s = Some ds \<Longrightarrow> get_all_devices w s = (ds, s)"
  by (simp add: get_all_devices_def)

lemma get_all_devices_fetch:
  "all_devices s = None \<Longrightarrow>
   get_all_devices w s =
     (let ds = (case states_reply w (length (hub_log s)) of None \<Rightarrow> [] | Some l \<Rightarrow> l)
      in (ds, s\<lparr>hub_log := hub_log s @ [GetStates], all_devices := Some ds\<rparr>))"
  by (simp add: get_all_devices_def hub_get_states_def Let_def)

lemma grouping_cached:
  "all_devices s = Some ds \<Longrightarrow> manual_area_grouping w False s = (group_devices ds, s)"
  by (simp add: manual_area_grouping_def get_all_devices_cached)

lemma grouping_forced:
  "manual_area_grouping w True s =
     (let ds = (case states_reply w (length (hub_log s)) of None \<Rightarrow> [] | Some l \<Rightarrow> l)
      in (group_devices ds, s\<lparr>hub_log := hub_log s @ [GetStates], all_devices := Some ds\<rparr>))"
  by (simp add: manual_area_grouping_def get_all_devices_fetch Let_def)

lemma grouping_empty_raw:
  "all_devices s = None \<Longrightarrow>
   manual_area_grouping w False s =
     (let ds = (case states_reply w (length (hub_log s)) of None \<Rightarrow> [] | Some l \<Rightarrow> l)
      in (group_devices ds, s\<lparr>hub_log := hub_log s @ [GetStates], all_devices := Some ds\<rparr>))"
  by (simp add: manual_area_grouping_def get_all_devices_fetch Let_def)

lemma group_devices_Nil: "group_devices [] = []"
  by (simp add: group_devices_def empty_houses_def)

lemma cache_valid_forced: "\<not> cache_valid True t s"
  by (simp add: cache_valid_def)

lemma cache_valid_no_key: "\<not> dict_has (devices_cache s) KEY_ALL \<Longrightarrow> \<not> cache_valid f t s"
  by (simp add: cache_valid_def)

lemma cache_valid_ticks: "cache_valid f t (s\<lparr>ticks := n\<rparr>) = cache_valid f t s"
  by (simp add: cache_valid_def)

text \<open>A cache read that finds the raw list sends nothing to the hub, whatever the time
  and whatever the age of the entry.\<close>

lemma load_with_raw_list_no_request:
  "all_devices s = Some ds \<Longrightarrow>
   hub_log (snd (load_areas_with_devices w False s)) = hub_log s \<and>
   all_devices (snd (load_areas_with_devices w False s)) = Some ds"
  by (simp add: load_areas_with_devices_def time_time_def Let_def grouping_cached)

lemma load_refresh_with_raw_list:
  "all_devices s = Some ds \<Longrightarrow> \<not> dict_has (devices_cache s) KEY_ALL \<Longrightarrow>
   load_areas_with_devices w False s =
     (group_devices ds,
      s\<lparr>ticks := Suc (ticks s), devices_cache := group_devices ds,
        cache_timestamp := dict_set KEY_ALL (clock w (ticks s)) (cache_timestamp s)\<rparr>)"
  by (simp add: load_areas_with_devices_def time_time_def Let_def grouping_cached
      cache_valid_def)

lemma load_forced:
  "load_areas_with_devices w True s =
     (let ds = (case states_reply w (length (hub_log s)) of None \<Rightarrow> [] | Some l \<Rightarrow> l)
      in (group_devices ds,
          s\<lparr>ticks := Suc (ticks s), hub_log := hub_log s @ [GetStates],
            all_devices := Some ds, devices_cache := group_devices ds,
            cache_timestamp := dict_set KEY_ALL (clock w (ticks s)) (cache_timestamp s)\<rparr>))"
  by (simp add: load_areas_with_devices_def time_time_def Let_def grouping_forced
      cache_valid_def)

lemma load_after_clear:
  "load_areas_with_devices w False (clear_cache s) =
     (let ds = (case states_reply w (length (hub_log s)) of None \<Rightarrow> [] | Some l \<Rightarrow> l)
      in (group_devices ds,
          s\<lparr>ticks := Suc (ticks s), hub_log := hub_log s @ [GetStates],
            all_devices := Some ds, devices_cache := group_devices ds,
            cache_timestamp := [(KEY_ALL, clock w (ticks s))], areas_list_memo := None\<rparr>))"
  by (simp add: load_areas_with_devices_def time_time_def Let_def grouping_empty_raw
      cache_valid_def clear_cache_def)

lemma not_has_Nil: "\<not> dict_has [] k"
  by (simp add: dict_has_def)

lemma load_many_empty_raw:
  "all_devices s = Some [] \<Longrightarrow> devices_cache s = [] \<Longrightarrow>
   fst (load_many w n s) = [] \<and> hub_log (snd (load_many w n s)) = hub_log s \<and>
   all_devices (snd (load_many w n s)) = Some [] \<and> devices_cache (snd (load_many w n s)) = []"
proof (induction n arbitrary: s)
  case 0
  then show ?case by simp
next
  case (Suc n)
  let ?s = "snd (load_areas_with_devices w False s)"
  have l: "load_areas_with_devices w False s =
     ([], s\<lparr>ticks := Suc (ticks s), devices_cache := [],
        cache_timestamp := dict_set KEY_ALL (clock w (ticks s)) (cache_timestamp s)\<rparr>)"
    using load_refresh_with_raw_list [OF Suc.prems(1), of w] Suc.prems(2)
    by (simp add: not_has_Nil group_devices_Nil)
  then have "all_devices ?s = Some []" and "devices_cache ?s = []" and "hub_log ?s = hub_log s"
    using Suc.prems by simp_all
  with Suc.IH [of ?s] show ?case by simp
qed

text \<open>
  Claim C7. The invalidation discards the stored entry, its time stamp, the raw device
  list and the memoized list of group names, whatever the state; and the cache read
  without force that follows it sends one request for the full state to the hub and
  groups the reply, whatever the clock shows.
\<close>

theorem read_after_invalidate_fetches:
  "devices_cache (clear_cache s) = [] \<and>
   cache_timestamp (clear_cache s) = [] \<and>
   all_devices (clear_cache s) = None \<and>
   areas_list_memo (clear_cache s) = None \<and>
   hub_log (snd (load_areas_with_devices w False (clear_cache s))) = hub_log s @ [GetStates] \<and>
   fst (load_areas_with_devices w False (clear_cache s)) =
     group_devices (case states_reply w (length (hub_log s)) of None \<Rightarrow> [] | Some l \<Rightarrow> l)"
  by (simp add: load_after_clear Let_def) (simp add: clear_cache_def)

text \<open>
  Claim C9. Let the fetch of the full state fail during a cache refresh (a forced one, or
  the one after an invalidation). Then the empty list is stored as the raw device list
  and the empty mapping as the entry; a later grouping returns the empty mapping, sends
  nothing to the hub and leaves the state as it is; any number of later cache reads
  without force, at any times, return the empty mapping and send nothing to the hub; and
  a forced read, or an invalidation followed by a read, sends a new request.
\<close>

theorem failed_fetch_is_cached:
  assumes "states_reply w (length (hub_log s)) = None"
    and "s1 = snd (load_areas_with_devices w force (if force then s else clear_cache s))"
  shows "all_devices s1 = Some [] \<and> devices_cache s1 = [] \<and>
         manual_area_grouping w False s1 = ([], s1) \<and>
         fst (load_many w n s1) = [] \<and>
         hub_log (snd (load_many w n s1)) = hub_log s1 \<and>
         all_devices (snd (load_many w n s1)) = Some [] \<and>
         hub_log (snd (load_areas_with_devices w True s1)) = hub_log s1 @ [GetStates] \<and>
         hub_log (snd (load_areas_with_devices w False (clear_cache s1)))
           = hub_log s1 @ [GetStates]"
proof -
  have raw: "all_devices s1 = Some []" and entry: "devices_cache s1 = []"
    using assms by (auto simp: load_forced load_after_clear group_devices_Nil)
  have g: "manual_area_grouping w False s1 = ([], s1)"
    using grouping_cached [OF raw] by (simp add: group_devices_Nil)
  have f: "hub_log (snd (load_areas_with_devices w True s1)) = hub_log s1 @ [GetStates]"
    by (simp add: load_forced Let_def)
  have c: "hub_log (snd (load_areas_with_devices w False (clear_cache s1)))
             = hub_log s1 @ [GetStates]"
    by (simp add: load_after_clear Let_def)
  from raw entry g f c load_many_empty_raw [OF raw entry, of w n] show ?thesis by simp
qed

text \<open>
  A witness: the bot after \<^verbatim>\<open>init\<close>, a hub that never answers, a forced refresh and
  three later reads.
\<close>

theorem failed_fetch_is_cached_witness:
  "fst (load_many \<lparr>states_reply = (\<lambda>n. None), state_reply = (\<lambda>n e. None),
                   service_reply = (\<lambda>n d a e. False), clock = (\<lambda>n. 100 * real n),
                   send_reply = (\<lambda>n. False)\<rparr> 3
          (snd (load_areas_with_devices
                  \<lparr>states_reply = (\<lambda>n. None), state_reply = (\<lambda>n e. None),
                   service_reply = (\<lambda>n d a e. False), clock = (\<lambda>n. 100 * real n),
                   send_reply = (\<lambda>n. False)\<rparr> True init))) = [] \<and>
   hub_log (snd (load_many \<lparr>states_reply = (\<lambda>n. None), state_reply = (\<lambda>n e. None),
                   service_reply = (\<lambda>n d a e. False), clock = (\<lambda>n. 100 * real n),
                   send_reply = (\<lambda>n. False)\<rparr> 3
          (snd (load_areas_with_devices
                  \<lparr>states_reply = (\<lambda>n. None), state_reply = (\<lambda>n e. None),
                   service_reply = (\<lambda>n d a e. False), clock = (\<lambda>n. 100 * real n),
                   send_reply = (\<lambda>n. False)\<rparr> True init)))) = [GetStates]"
proof -
  let ?w = "\<lparr>states_reply = (\<lambda>n. None), state_reply = (\<lambda>n e. None),
             service_reply = (\<lambda>n d a e. False), clock = (\<lambda>n. 100 * real n),
             send_reply = (\<lambda>n. False)\<rparr>"
  let ?s1 = "snd (load_areas_with_devices ?w True init)"
  have h: "states_reply ?w (length (hub_log init)) = None" by simp
  have e: "?s1 = snd (load_areas_with_devices ?w True (if True then init else clear_cache init))"
    by simp
  have l: "hub_log ?s1 = [GetStates]"
    by (simp add: load_forced Let_def init_def)
  from failed_fetch_is_cached [OF h e, of 3] l show ?thesis by simp
qed

lemma group_devices_keys: "fst ` set (group_devices ds) \<subseteq> fst ` set empty_houses"
proof -
  have "set (map fst (group_loop xs empty_houses)) = set (map fst empty_houses)" for xs
    by (simp only: group_loop_keys)
  then show ?thesis by (auto simp: group_devices_def Let_def)
qed

lemma group_devices_no_all_key: "\<not> dict_has (group_devices ds) KEY_ALL"
proof -
  have "KEY_ALL \<notin> set (map house_name [1..<11])"
    unfolding house_names by (simp add: KEY_ALL_def)
  moreover have "fst ` set empty_houses = set (map house_name [1..<11]) \<union> {GENERAL_AREA}"
    by (simp add: empty_houses_def image_Un image_image)
  ultimately have "KEY_ALL \<notin> fst ` set empty_houses"
    by (simp add: KEY_ALL_def GENERAL_AREA_def)
  with group_devices_keys have "KEY_ALL \<notin> fst ` set (group_devices ds)" by blast
  then show ?thesis by (simp add: dict_has_def map_of_eq_None_iff)
qed

text \<open>
  On claim C3: the expiry of the entry does not bring a new fetch. After \<^verbatim>\<open>init\<close> a
  first read at time 0 fetches the full state, one lamp; a second read without force at
  time 100, when the entry is 100 seconds old and the time to live is 2, groups the raw
  list that \<^verbatim>\<open>get_all_devices\<close> has kept and sends nothing to the hub: the log of the
  two reads holds one request. The entry is stored anew with the time stamp 100.
\<close>

theorem expired_entry_is_not_fetched_again:
  "hub_log (snd (load_areas_with_devices
       \<lparr>states_reply = (\<lambda>n. Some [\<lparr>entity_id = [108, 105, 103, 104, 116, 46, 97],
           state = ON, attributes = [], last_changed = [], last_updated = []\<rparr>]),
        state_reply = (\<lambda>n e. None), service_reply = (\<lambda>n d a e. False),
        clock = (\<lambda>n. 100 * real n), send_reply = (\<lambda>n. False)\<rparr> False
       (snd (load_areas_with_devices
          \<lparr>states_reply = (\<lambda>n. Some [\<lparr>entity_id = [108, 105, 103, 104, 116, 46, 97],
              state = ON, attributes = [], last_changed = [], last_updated = []\<rparr>]),
           state_reply = (\<lambda>n e. None), service_reply = (\<lambda>n d a e. False),
           clock = (\<lambda>n. 100 * real n), send_reply = (\<lambda>n. False)\<rparr> False init))))
     = [GetStates] \<and>
   cache_timestamp (snd (load_areas_with_devices
       \<lparr>states_reply = (\<lambda>n. Some [\<lparr>entity_id = [108, 105, 103, 104, 116, 46, 97],
           state = ON, attributes = [], last_changed = [], last_updated = []\<rparr>]),
        state_reply = (\<lambda>n e. None), service_reply = (\<lambda>n d a e. False),
        clock = (\<lambda>n. 100 * real n), send_reply = (\<lambda>n. False)\<rparr> False
       (snd (load_areas_with_devices
          \<lparr>states_reply = (\<lambda>n. Some [\<lparr>entity_id = [108, 105, 103, 104, 116, 46, 97],
              state = ON, attributes = [], last_changed = [], last_updated = []\<rparr>]),
           state_reply = (\<lambda>n e. None), service_reply = (\<lambda>n d a e. False),
           clock = (\<lambda>n. 100 * real n), send_reply = (\<lambda>n. False)\<rparr> False init))))
     = [(KEY_ALL, 100)]"
proof -
  let ?lamp = "\<lparr>entity_id = [108, 105, 103, 104, 116, 46, 97],
           state = ON, attributes = [], last_changed = [], last_updated = []\<rparr>"
  let ?w = "\<lparr>states_reply = (\<lambda>n. Some [?lamp]),
        state_reply = (\<lambda>n e. None), service_reply = (\<lambda>n d a e. False),
        clock = (\<lambda>n. 100 * real n), send_reply = (\<lambda>n. False)\<rparr>"
  have i: "init = clear_cache init" by (simp add: init_def clear_cache_def)
  have 1: "load_areas_with_devices ?w False init =
     (group_devices [?lamp],
      init\<lparr>ticks := 1, hub_log := [GetStates], all_devices := Some [?lamp],
           devices_cache := group_devices [?lamp], cache_timestamp := [(KEY_ALL, 0)],
           areas_list_memo := None\<rparr>)"
    by (subst i) (simp add: load_after_clear Let_def init_def)
  show ?thesis
    unfolding 1
    by (simp add: load_refresh_with_raw_list group_devices_no_all_key init_def)
qed

subsection \<open>The statistics of an area\<close>

lemma count_three_ways:
  "length (filter (\<lambda>d. state d = ON) ds) + length (filter (\<lambda>d. state d = OFF) ds)
     + length (filter (\<lambda>d. state d \<noteq> ON \<and> state d \<noteq> OFF) ds) = length ds"
  by (induction ds) (auto simp: ON_def OFF_def)

lemma get_area_data_for_api_stats:
  "ad_stats (fst (get_area_data_for_api w area_name s)) =
     \<lparr>st_total = length (fst (get_area_devices w area_name True s)),
      st_on = length (filter (\<lambda>d. state d = ON) (fst (get_area_devices w area_name True s))),
      st_off = length (filter (\<lambda>d. state d = OFF) (fst (get_area_devices w area_name True s)))\<rparr>"
  by (simp add: get_area_data_for_api_def Let_def split: prod.splits)

text \<open>
  Claim C10. In the response for an area the total is the number of devices of the
  area, the on tally and the off tally count the devices whose state is \<^verbatim>\<open>on\<close> and
  \<^verbatim>\<open>off\<close>, and the devices in any other state make up the difference: so the two
  tallies together never exceed the total.
\<close>

theorem area_stats_on_off_le_total:
  "st_on (ad_stats (fst (get_area_data_for_api w area_name s)))
     + st_off (ad_stats (fst (get_area_data_for_api w area_name s)))
     \<le> st_total (ad_stats (fst (get_area_data_for_api w area_name s))) \<and>
   st_total (ad_stats (fst (get_area_data_for_api w area_name s)))
     = length (ad_devices (fst (get_area_data_for_api w area_name s))) \<and>
   st_on (ad_stats (fst (get_area_data_for_api w area_name s)))
     + st_off (ad_stats (fst (get_area_data_for_api w area_name s)))
     + length (filter (\<lambda>d. state d \<noteq> ON \<and> state d \<noteq> OFF)
         (fst (get_area_devices w area_name True s)))
     = st_total (ad_stats (fst (get_area_data_for_api w area_name s)))"
proof -
  let ?ds = "fst (get_area_devices w area_name True s)"
  have d: "length (ad_devices (fst (get_area_data_for_api w area_name s))) = length ?ds"
    by (simp add: get_area_data_for_api_def Let_def split: prod.splits)
  show ?thesis
    unfolding get_area_data_for_api_stats d
    using count_three_ways [of ?ds] by simp
qed

subsection \<open>The API facade\<close>

lemma get_device_state_eq:
  "get_device_state w eid s =
     (map_option (\<lambda>e. e\<lparr>entity_id := eid\<rparr>) (state_reply w (length (hub_log s)) eid),
      s\<lparr>hub_log := hub_log s @ [GetState eid]\<rparr>)"
  by (simp add: get_device_state_def hub_get_state_def split: option.splits)

lemma control_device_eq:
  "control_device w eid action s =
     (service_reply w (length (hub_log s)) (domain_of eid) action eid,
      s\<lparr>hub_log := hub_log s @ [CallService (domain_of eid) action eid]\<rparr>)"
  by (simp add: control_device_def hub_call_service_def)

text \<open>What \<^verbatim>\<open>get_device_state\<close> returns is never equal to the text \<^verbatim>\<open>on\<close>.\<close>

lemma state_value_never_on: "state_value r \<noteq> PyStr ON"
  by (simp add: state_value_def split: option.splits)

text \<open>So a toggle request asks the hub for the state and then turns the entity on,
  whatever the state is.\<close>

lemma toggle_turns_on:
  "take 2 (drop (length (hub_log s))
     (hub_log (snd (control_device_handler w
        (Some \<lparr>entity_id_field = Some eid, action_field = Some TOGGLE\<rparr>) s))))
   = [GetState eid, CallService (domain_of eid) ON eid]"
  by (simp add: control_device_handler_def get_device_state_eq control_device_eq
      state_value_never_on clear_cache_def time_time_def Let_def)

text \<open>
  On claim C2: a toggle request for a lamp that is on. The hub reports the lamp as on and
  accepts every service call; the facade runs in debug mode, after \<^verbatim>\<open>init\<close>. The
  facade asks for the state, calls \<^verbatim>\<open>turn_on\<close> and reports the action \<^verbatim>\<open>on\<close>:
  the comparison of the toggle takes the whole snapshot for the state text.
\<close>

theorem toggle_of_lamp_that_is_on_turns_on:
  "hub_log (snd (control_device_endpoint \<lparr>DEBUG = True, SECRET_KEY = []\<rparr>
      \<lparr>states_reply = (\<lambda>n. None),
       state_reply = (\<lambda>n e. Some \<lparr>entity_id = e, state = ON, attributes = [],
                                    last_changed = [], last_updated = []\<rparr>),
       service_reply = (\<lambda>n d a e. True), clock = (\<lambda>n. 0), send_reply = (\<lambda>n. False)\<rparr>
      None
      (Some \<lparr>entity_id_field = Some [108, 105, 103, 104, 116, 46, 97],
             action_field = Some TOGGLE\<rparr>) init))
   = [GetState [108, 105, 103, 104, 116, 46, 97],
      CallService [108, 105, 103, 104, 116] ON [108, 105, 103, 104, 116, 46, 97],
      GetState [108, 105, 103, 104, 116, 46, 97]] \<and>
   fst (control_device_endpoint \<lparr>DEBUG = True, SECRET_KEY = []\<rparr>
      \<lparr>states_reply = (\<lambda>n. None),
       state_reply = (\<lambda>n e. Some \<lparr>entity_id = e, state = ON, attributes = [],
                                    last_changed = [], last_updated = []\<rparr>),
       service_reply = (\<lambda>n d a e. True), clock = (\<lambda>n. 0), send_reply = (\<lambda>n. False)\<rparr>
      None
      (Some \<lparr>entity_id_field = Some [108, 105, 103, 104, 116, 46, 97],
             action_field = Some TOGGLE\<rparr>) init)
   = \<lparr>status = 200,
      body = ControlBody [108, 105, 103, 104, 116, 46, 97] ON
               (Some \<lparr>entity_id = [108, 105, 103, 104, 116, 46, 97], state = ON,
                      attributes = [], last_changed = [], last_updated = []\<rparr>) 0\<rparr>"
  by (simp add: control_device_endpoint_def require_auth_def control_device_handler_def
      get_device_state_eq control_device_eq state_value_never_on clear_cache_def
      time_time_def Let_def init_def domain_of_def)

lemma set_dict_set: "set (dict_set k v d) \<subseteq> insert (k, v) (set d)"
  by (induction d) (auto split: if_splits)

lemma keys_dict_set: "fst ` set (dict_set k v d) = insert k (fst ` set d)"
proof (induction d)
  case Nil
  show ?case by simp
next
  case (Cons e d)
  obtain k' v' where e: "e = (k', v')" by (cases e)
  show ?case
    unfolding e using Cons.IH by (cases "k' = k") (simp_all add: insert_commute)
qed

lemma map_of_dict_set: "map_of (dict_set k v d) k' = (if k' = k then Some v else map_of d k')"
  by (induction d) auto

text \<open>On a dictionary whose keys are strings, the assignment with a string key is that of
  \<^verbatim>\<open>dict_set\<close>, and \<^verbatim>\<open>jsonify\<close> can sort the keys.\<close>

lemma setitem_loop_strings:
  "string_keys d \<Longrightarrow> setitem_loop (JString t) v d = dict_set (JString t) v d"
  by (induction d) (auto simp: string_keys_def)

lemma dict_setitem_strings:
  "string_keys d \<Longrightarrow> dict_setitem (JString t) v d = Inr (dict_set (JString t) v d)"
  by (simp add: dict_setitem_def setitem_loop_strings)

lemma string_keys_dict_set: "string_keys d \<Longrightarrow> string_keys (dict_set (JString t) v d)"
  by (simp add: string_keys_def keys_dict_set)

lemma string_keys_sortable:
  assumes "string_keys d"
  shows "sortable d"
proof -
  have "comparable (key_of k) (key_of k')" if "k \<in> fst ` set d" "k' \<in> fst ` set d" for k k'
  proof -
    from that assms obtain t t' where "k = JString t" "k' = JString t'"
      unfolding string_keys_def by blast
    then show ?thesis by simp
  qed
  then show ?thesis by (auto simp: sortable_def list_all_iff)
qed

text \<open>The value that the loop stores for the name \<^verbatim>\<open>t\<close> when the hub is asked as its
  request number \<^verbatim>\<open>n\<close>.\<close>

lemma batch_loop_step:
  "string_keys acc \<Longrightarrow>
   batch_loop w (JString t # rest) acc s =
     batch_loop w rest
       (dict_set (JString t)
          (case state_reply w (length (hub_log s)) t of
             None \<Rightarrow> NoAnswer
           | Some e \<Rightarrow> Snapshot (JString t) (e\<lparr>entity_id := t\<rparr>)) acc)
       (s\<lparr>hub_log := hub_log s @ [GetState t]\<rparr>)"
  by (simp add: get_device_state_eq dict_setitem_strings split: option.splits)

lemma batch_loop_names_state:
  "string_keys acc \<Longrightarrow>
   snd (batch_loop w (map JString names) acc s) = s\<lparr>hub_log := hub_log s @ map GetState names\<rparr>"
proof (induction names arbitrary: acc s)
  case Nil
  show ?case by simp
next
  case (Cons t names)
  show ?case
    unfolding list.map batch_loop_step [OF Cons.prems]
    by (simp add: Cons.IH string_keys_dict_set Cons.prems)
qed

lemma batch_loop_names_keys:
  "string_keys acc \<Longrightarrow>
   (case fst (batch_loop w (map JString names) acc s) of
      Inl e \<Rightarrow> False
    | Inr results \<Rightarrow>
        string_keys results \<and> fst ` set results = fst ` set acc \<union> JString ` set names)"
proof (induction names arbitrary: acc s)
  case Nil
  then show ?case by simp
next
  case (Cons t names)
  let ?v = "case state_reply w (length (hub_log s)) t of
              None \<Rightarrow> NoAnswer
            | Some e \<Rightarrow> Snapshot (JString t) (e\<lparr>entity_id := t\<rparr>)"
  have k: "string_keys (dict_set (JString t) ?v acc)"
    by (rule string_keys_dict_set) (rule Cons.prems)
  show ?case
    unfolding list.map batch_loop_step [OF Cons.prems]
    using Cons.IH [OF k, where s = "s\<lparr>hub_log := hub_log s @ [GetState t]\<rparr>"]
    by (auto simp: keys_dict_set split: sum.splits)
qed

lemma batch_loop_names_entries:
  "string_keys acc \<Longrightarrow>
   (case fst (batch_loop w (map JString names) acc s) of
      Inl e \<Rightarrow> False
    | Inr results \<Rightarrow>
        (\<forall>(k, v)\<in>set results.
           (k, v) \<in> set acc \<or>
           (\<exists>i<length names. k = JString (names ! i) \<and>
              v = (case state_reply w (length (hub_log s) + i) (names ! i) of
                     None \<Rightarrow> NoAnswer
                   | Some e \<Rightarrow> Snapshot k (e\<lparr>entity_id := names ! i\<rparr>)))))"
proof (induction names arbitrary: acc s)
  case Nil
  then show ?case by simp
next
  case (Cons t names)
  let ?v = "case state_reply w (length (hub_log s)) t of
              None \<Rightarrow> NoAnswer
            | Some e \<Rightarrow> Snapshot (JString t) (e\<lparr>entity_id := t\<rparr>)"
  let ?acc = "dict_set (JString t) ?v acc"
  let ?s = "s\<lparr>hub_log := hub_log s @ [GetState t]\<rparr>"
  have k: "string_keys ?acc"
    by (rule string_keys_dict_set) (rule Cons.prems)
  from Cons.IH [OF k, where s = ?s] obtain results where
    r: "fst (batch_loop w (map JString names) ?acc ?s) = Inr results"
    and e: "\<forall>(k, v)\<in>set results.
           (k, v) \<in> set ?acc \<or>
           (\<exists>i<length names. k = JString (names ! i) \<and>
              v = (case state_reply w (length (hub_log ?s) + i) (names ! i) of
                     None \<Rightarrow> NoAnswer
                   | Some e \<Rightarrow> Snapshot k (e\<lparr>entity_id := names ! i\<rparr>)))"
    by (auto split: sum.splits)
  have "(k, v) \<in> set acc \<or>
           (\<exists>i<length (t # names). k = JString ((t # names) ! i) \<and>
              v = (case state_reply w (length (hub_log s) + i) ((t # names) ! i) of
                     None \<Rightarrow> NoAnswer
                   | Some e \<Rightarrow> Snapshot k (e\<lparr>entity_id := (t # names) ! i\<rparr>)))"
    if kv: "(k, v) \<in> set results" for k v
  proof -
    from e kv consider (old) "(k, v) \<in> set ?acc"
      | (new) i where "i < length names" "k = JString (names ! i)"
          "v = (case state_reply w (length (hub_log ?s) + i) (names ! i) of
                     None \<Rightarrow> NoAnswer
                   | Some e \<Rightarrow> Snapshot k (e\<lparr>entity_id := names ! i\<rparr>))"
      by auto
    then show ?thesis
    proof cases
      case old
      with set_dict_set [of "JString t" ?v acc]
      have "(k, v) = (JString t, ?v) \<or> (k, v) \<in> set acc" by auto
      then show ?thesis
      proof
        assume "(k, v) = (JString t, ?v)"
        then have "0 < length (t # names) \<and> k = JString ((t # names) ! 0) \<and>
              v = (case state_reply w (length (hub_log s) + 0) ((t # names) ! 0) of
                     None \<Rightarrow> NoAnswer
                   | Some e \<Rightarrow> Snapshot k (e\<lparr>entity_id := (t # names) ! 0\<rparr>))"
          by (simp split: option.splits)
        then show ?thesis by blast
      next
        assume "(k, v) \<in> set acc"
        then show ?thesis by simp
      qed
    next
      case new
      then have "Suc i < length (t # names) \<and> k = JString ((t # names) ! Suc i) \<and>
              v = (case state_reply w (length (hub_log s) + Suc i) ((t # names) ! Suc i) of
                     None \<Rightarrow> NoAnswer
                   | Some e \<Rightarrow> Snapshot k (e\<lparr>entity_id := (t # names) ! Suc i\<rparr>))"
        by (simp split: option.splits)
      then show ?thesis by blast
    qed
  qed
  then show ?case
    unfolding list.map batch_loop_step [OF Cons.prems] r by auto
qed

lemma batch_loop_names_other:
  "string_keys acc \<Longrightarrow> t \<notin> set names \<Longrightarrow>
   (case fst (batch_loop w (map JString names) acc s) of
      Inl e \<Rightarrow> False
    | Inr results \<Rightarrow> map_of results (JString t) = map_of acc (JString t))"
proof (induction names arbitrary: acc s)
  case Nil
  then show ?case by simp
next
  case (Cons u names)
  let ?v = "case state_reply w (length (hub_log s)) u of
              None \<Rightarrow> NoAnswer
            | Some e \<Rightarrow> Snapshot (JString u) (e\<lparr>entity_id := u\<rparr>)"
  have k: "string_keys (dict_set (JString u) ?v acc)"
    by (rule string_keys_dict_set) (rule Cons.prems)
  from Cons.prems have n: "t \<notin> set names" "t \<noteq> u" by auto
  show ?case
    unfolding list.map batch_loop_step [OF Cons.prems(1)]
    using Cons.IH [OF k n(1), where s = "s\<lparr>hub_log := hub_log s @ [GetState u]\<rparr>"] n(2)
    by (auto simp: map_of_dict_set split: sum.splits)
qed

lemma batch_loop_names_value:
  "string_keys acc \<Longrightarrow> distinct names \<Longrightarrow> i < length names \<Longrightarrow>
   (case fst (batch_loop w (map JString names) acc s) of
      Inl e \<Rightarrow> False
    | Inr results \<Rightarrow>
        map_of results (JString (names ! i)) =
          Some (case state_reply w (length (hub_log s) + i) (names ! i) of
                  None \<Rightarrow> NoAnswer
                | Some e \<Rightarrow> Snapshot (JString (names ! i)) (e\<lparr>entity_id := names ! i\<rparr>)))"
proof (induction names arbitrary: acc s i)
  case Nil
  then show ?case by simp
next
  case (Cons u names)
  let ?v = "case state_reply w (length (hub_log s)) u of
              None \<Rightarrow> NoAnswer
            | Some e \<Rightarrow> Snapshot (JString u) (e\<lparr>entity_id := u\<rparr>)"
  let ?acc = "dict_set (JString u) ?v acc"
  let ?s = "s\<lparr>hub_log := hub_log s @ [GetState u]\<rparr>"
  have k: "string_keys ?acc"
    by (rule string_keys_dict_set) (rule Cons.prems)
  show ?case
  proof (cases i)
    case 0
    from Cons.prems have "u \<notin> set names" by simp
    from batch_loop_names_other [OF k this, where w = w and s = ?s] 0 show ?thesis
      unfolding list.map batch_loop_step [OF Cons.prems(1)]
      by (auto simp: map_of_dict_set split: sum.splits option.splits)
  next
    case (Suc j)
    with Cons.prems have "distinct names" and "j < length names" by simp_all
    from Cons.IH [OF k this, where s = ?s] Suc show ?thesis
      unfolding list.map batch_loop_step [OF Cons.prems(1)]
      by (auto split: sum.splits option.splits)
  qed
qed

text \<open>An element that cannot be hashed ends the loop with the exception of the
  \<^verbatim>\<open>except\<close> clause, after the state query for it.\<close>

lemma batch_loop_unhashable:
  "\<exists>x\<in>set ids. key_of x = None \<Longrightarrow>
   batch_loop w ids acc s =
     (Inl TypeError,
      s\<lparr>hub_log := hub_log s @ map (GetState \<circ> format_value)
                       (take (Suc (length (takeWhile (\<lambda>x. key_of x \<noteq> None) ids))) ids)\<rparr>)"
proof (induction ids arbitrary: acc s)
  case Nil
  then show ?case by simp
next
  case (Cons x ids)
  show ?case
  proof (cases "key_of x = None")
    case True
    then show ?thesis by (simp add: get_device_state_eq dict_setitem_def)
  next
    case False
    then obtain y where y: "key_of x = Some y" by auto
    with Cons.prems have "\<exists>x\<in>set ids. key_of x = None" by auto
    from Cons.IH [OF this] show ?thesis
      by (simp add: get_device_state_eq dict_setitem_def y)
  qed
qed

text \<open>
  On claim C8, the counterexample: in debug mode, after \<^verbatim>\<open>init\<close>, a request with the one
  id \<^verbatim>\<open>light.a\<close>, for which the hub gives no answer. The request is answered with
  success, and the value of the id is \<^verbatim>\<open>None\<close>: neither a snapshot nor an error.
\<close>

theorem unanswered_id_is_null:
  "fst (batch_get_devices \<lparr>DEBUG = True, SECRET_KEY = []\<rparr>
     \<lparr>states_reply = (\<lambda>n. None), state_reply = (\<lambda>n e. None),
      service_reply = (\<lambda>n d a e. False), clock = (\<lambda>n. 0), send_reply = (\<lambda>n. False)\<rparr>
     None (Some (Some (IdList [JString [108, 105, 103, 104, 116, 46, 97]]))) init)
   = \<lparr>status = 200,
      body = BatchBody [(JString [108, 105, 103, 104, 116, 46, 97], NoAnswer)] 0\<rparr>"
  by (simp add: batch_get_devices_def require_auth_def batch_get_devices_handler_def
      get_device_state_eq dict_setitem_def sortable_def time_time_def init_def)

text \<open>
  Claim C8, amended. A batch request with more than 20 elements, whatever they are, sends
  nothing to the hub and is not answered with success; when it passes the
  authentication, the answer is the validation error, with status 400, and the state of
  the bot is as before. A request with at most 20 ids, all of them strings, that passes
  the authentication is answered with success: one state query is sent for each id, in
  the order of the list; the ids of the answer are those of the request; the value of an
  id is the outcome of a state query sent for it, which is the snapshot that the hub
  answered or \<^verbatim>\<open>None\<close> when the hub gave no answer, and never an error; and when the
  ids are distinct, it is the outcome of the one query sent for this id. A request with
  at most 20 elements, one of which is a list or an object, that passes the
  authentication is answered with status 500, after the state queries for the elements
  up to the first such element.
\<close>

theorem batch_limit:
  "(length ids > 20 \<longrightarrow>
      hub_log (snd (batch_get_devices cfg w auth (Some (Some (IdList ids))) s)) = hub_log s \<and>
      status (fst (batch_get_devices cfg w auth (Some (Some (IdList ids))) s)) \<noteq> 200 \<and>
      (authorised cfg auth \<longrightarrow>
         batch_get_devices cfg w auth (Some (Some (IdList ids))) s
           = (\<lparr>status = 400, body = ErrorBody TooManyDevices\<rparr>, s))) \<and>
   (length names \<le> 20 \<and> authorised cfg auth \<longrightarrow>
      (\<exists>results now.
         fst (batch_get_devices cfg w auth (Some (Some (IdList (map JString names)))) s)
           = \<lparr>status = 200, body = BatchBody results now\<rparr> \<and>
         fst ` set results = JString ` set names \<and>
         (\<forall>(k, v)\<in>set results.
            \<exists>i<length names. k = JString (names ! i) \<and>
              v = (case state_reply w (length (hub_log s) + i) (names ! i) of
                     None \<Rightarrow> NoAnswer
                   | Some e \<Rightarrow> Snapshot k (e\<lparr>entity_id := names ! i\<rparr>))) \<and>
         (distinct names \<longrightarrow>
            (\<forall>i<length names. map_of results (JString (names ! i)) =
               Some (case state_reply w (length (hub_log s) + i) (names ! i) of
                       None \<Rightarrow> NoAnswer
                     | Some e \<Rightarrow>
                         Snapshot (JString (names ! i)) (e\<lparr>entity_id := names ! i\<rparr>)))) \<and>
         hub_log (snd (batch_get_devices cfg w auth
                         (Some (Some (IdList (map JString names)))) s))
           = hub_log s @ map GetState names)) \<and>
   (length ids \<le> 20 \<and> authorised cfg auth \<and> (\<exists>x\<in>set ids. key_of x = None) \<longrightarrow>
      fst (batch_get_devices cfg w auth (Some (Some (IdList ids))) s)
        = \<lparr>status = 500, body = ErrorBody (Unexpected TypeError)\<rparr> \<and>
      hub_log (snd (batch_get_devices cfg w auth (Some (Some (IdList ids))) s))
        = hub_log s @ map (GetState \<circ> format_value)
            (take (Suc (length (takeWhile (\<lambda>x. key_of x \<noteq> None) ids))) ids))"
proof (intro conjI impI)
  assume "length ids > 20"
  then show "hub_log (snd (batch_get_devices cfg w auth (Some (Some (IdList ids))) s))
               = hub_log s"
    and "status (fst (batch_get_devices cfg w auth (Some (Some (IdList ids))) s)) \<noteq> 200"
    by (simp_all add: batch_get_devices_def require_auth_def batch_get_devices_handler_def)
next
  assume "length ids > 20" and "authorised cfg auth"
  then show "batch_get_devices cfg w auth (Some (Some (IdList ids))) s
           = (\<lparr>status = 400, body = ErrorBody TooManyDevices\<rparr>, s)"
    by (auto simp: batch_get_devices_def require_auth_def batch_get_devices_handler_def
        authorised_def BEARER_def)
next
  assume a: "length names \<le> 20 \<and> authorised cfg auth"
  let ?ids = "map JString names"
  let ?s1 = "s\<lparr>hub_log := hub_log s @ map GetState names\<rparr>"
  have e: "string_keys ([] :: (json_value \<times> batch_item) list)"
    by (simp add: string_keys_def)
  have st: "snd (batch_loop w ?ids [] s) = ?s1"
    by (rule batch_loop_names_state [OF e])
  from batch_loop_names_keys [OF e, where w = w and names = names and s = s] obtain results where
    r: "fst (batch_loop w ?ids [] s) = Inr results"
    and sk: "string_keys results"
    and keys: "fst ` set results = JString ` set names"
    by (auto split: sum.splits)
  from r st have loop: "batch_loop w ?ids [] s = (Inr results, ?s1)"
    by (simp add: prod_eq_iff)
  have run: "batch_get_devices cfg w auth (Some (Some (IdList ?ids))) s
      = (\<lparr>status = 200, body = BatchBody results (clock w (ticks s))\<rparr>,
         ?s1\<lparr>ticks := Suc (ticks s)\<rparr>)"
    using a string_keys_sortable [OF sk]
    by (auto simp: batch_get_devices_def require_auth_def batch_get_devices_handler_def
        authorised_def BEARER_def time_time_def loop)
  have entries: "\<forall>(k, v)\<in>set results.
            \<exists>i<length names. k = JString (names ! i) \<and>
              v = (case state_reply w (length (hub_log s) + i) (names ! i) of
                     None \<Rightarrow> NoAnswer
                   | Some e \<Rightarrow> Snapshot k (e\<lparr>entity_id := names ! i\<rparr>))"
    using batch_loop_names_entries [OF e, where w = w and names = names and s = s] by (simp add: r)
  have vals: "distinct names \<longrightarrow>
            (\<forall>i<length names. map_of results (JString (names ! i)) =
               Some (case state_reply w (length (hub_log s) + i) (names ! i) of
                       None \<Rightarrow> NoAnswer
                     | Some e \<Rightarrow>
                         Snapshot (JString (names ! i)) (e\<lparr>entity_id := names ! i\<rparr>)))"
  proof (intro impI allI)
    fix i
    assume "distinct names" and "i < length names"
    from batch_loop_names_value [OF e this, where w = w and s = s]
    show "map_of results (JString (names ! i)) =
               Some (case state_reply w (length (hub_log s) + i) (names ! i) of
                       None \<Rightarrow> NoAnswer
                     | Some e \<Rightarrow>
                         Snapshot (JString (names ! i)) (e\<lparr>entity_id := names ! i\<rparr>))"
      by (simp add: r)
  qed
  have log: "hub_log (snd (batch_get_devices cfg w auth (Some (Some (IdList ?ids))) s))
           = hub_log s @ map GetState names"
    unfolding run by simp
  show "\<exists>results now.
         fst (batch_get_devices cfg w auth (Some (Some (IdList (map JString names)))) s)
           = \<lparr>status = 200, body = BatchBody results now\<rparr> \<and>
         fst ` set results = JString ` set names \<and>
         (\<forall>(k, v)\<in>set results.
            \<exists>i<length names. k = JString (names ! i) \<and>
              v = (case state_reply w (length (hub_log s) + i) (names ! i) of
                     None \<Rightarrow> NoAnswer
                   | Some e \<Rightarrow> Snapshot k (e\<lparr>entity_id := names ! i\<rparr>))) \<and>
         (distinct names \<longrightarrow>
            (\<forall>i<length names. map_of results (JString (names ! i)) =
               Some (case state_reply w (length (hub_log s) + i) (names ! i) of
                       None \<Rightarrow> NoAnswer
                     | Some e \<Rightarrow>
                         Snapshot (JString (names ! i)) (e\<lparr>entity_id := names ! i\<rparr>)))) \<and>
         hub_log (snd (batch_get_devices cfg w auth
                         (Some (Some (IdList (map JString names)))) s))
           = hub_log s @ map GetState names"
    using keys entries vals log unfolding run by (intro exI conjI) (simp_all only: fst_conv)
next
  assume a: "length ids \<le> 20 \<and> authorised cfg auth \<and> (\<exists>x\<in>set ids. key_of x = None)"
  then have u: "\<exists>x\<in>set ids. key_of x = None" by simp
  have run: "batch_get_devices cfg w auth (Some (Some (IdList ids))) s
      = (\<lparr>status = 500, body = ErrorBody (Unexpected TypeError)\<rparr>,
         s\<lparr>hub_log := hub_log s @ map (GetState \<circ> format_value)
                       (take (Suc (length (takeWhile (\<lambda>x. key_of x \<noteq> None) ids))) ids)\<rparr>)"
    using a
    by (auto simp: batch_get_devices_def require_auth_def batch_get_devices_handler_def
        authorised_def BEARER_def batch_loop_unhashable [OF u])
  show "fst (batch_get_devices cfg w auth (Some (Some (IdList ids))) s)
        = \<lparr>status = 500, body = ErrorBody (Unexpected TypeError)\<rparr>"
    and "hub_log (snd (batch_get_devices cfg w auth (Some (Some (IdList ids))) s))
        = hub_log s @ map (GetState \<circ> format_value)
            (take (Suc (length (takeWhile (\<lambda>x. key_of x \<noteq> None) ids))) ids)"
    unfolding run by simp_all
qed

text \<open>
  A witness: in debug mode, after \<^verbatim>\<open>init\<close>, with a hub that gives no answer, a request
  with 21 times the id \<^verbatim>\<open>light.a\<close> is refused and leaves the bot as it was; a request
  with this one id sends one state query and is answered with success; and a request
  whose one element is the list \<^verbatim>\<open>['a']\<close> sends one state query and is answered with
  status 500.
\<close>

theorem batch_limit_witness:
  "batch_get_devices \<lparr>DEBUG = True, SECRET_KEY = []\<rparr>
     \<lparr>states_reply = (\<lambda>n. None), state_reply = (\<lambda>n e. None),
      service_reply = (\<lambda>n d a e. False), clock = (\<lambda>n. 0), send_reply = (\<lambda>n. False)\<rparr>
     None (Some (Some (IdList (replicate 21 (JString [108, 105, 103, 104, 116, 46, 97])))))
     init
   = (\<lparr>status = 400, body = ErrorBody TooManyDevices\<rparr>, init) \<and>
   status (fst (batch_get_devices \<lparr>DEBUG = True, SECRET_KEY = []\<rparr>
     \<lparr>states_reply = (\<lambda>n. None), state_reply = (\<lambda>n e. None),
      service_reply = (\<lambda>n d a e. False), clock = (\<lambda>n. 0), send_reply = (\<lambda>n. False)\<rparr>
     None (Some (Some (IdList [JString [108, 105, 103, 104, 116, 46, 97]]))) init)) = 200 \<and>
   hub_log (snd (batch_get_devices \<lparr>DEBUG = True, SECRET_KEY = []\<rparr>
     \<lparr>states_reply = (\<lambda>n. None), state_reply = (\<lambda>n e. None),
      service_reply = (\<lambda>n d a e. False), clock = (\<lambda>n. 0), send_reply = (\<lambda>n. False)\<rparr>
     None (Some (Some (IdList [JString [108, 105, 103, 104, 116, 46, 97]]))) init))
   = [GetState [108, 105, 103, 104, 116, 46, 97]] \<and>
   batch_get_devices \<lparr>DEBUG = True, SECRET_KEY = []\<rparr>
     \<lparr>states_reply = (\<lambda>n. None), state_reply = (\<lambda>n e. None),
      service_reply = (\<lambda>n d a e. False), clock = (\<lambda>n. 0), send_reply = (\<lambda>n. False)\<rparr>
     None (Some (Some (IdList [JArray [91, 39, 97, 39, 93]]))) init
   = (\<lparr>status = 500, body = ErrorBody (Unexpected TypeError)\<rparr>,
      init\<lparr>hub_log := [GetState [91, 39, 97, 39, 93]]\<rparr>)"
proof -
  let ?cfg = "\<lparr>DEBUG = True, SECRET_KEY = []\<rparr>"
  let ?w = "\<lparr>states_reply = (\<lambda>n. None), state_reply = (\<lambda>n e. None),
      service_reply = (\<lambda>n d a e. False), clock = (\<lambda>n. 0), send_reply = (\<lambda>n. False)\<rparr>"
  let ?id = "[108, 105, 103, 104, 116, 46, 97] :: ustr"
  let ?l = "JArray [91, 39, 97, 39, 93]"
  have a: "authorised ?cfg None" by (simp add: authorised_def)
  have big: "length (replicate 21 (JString ?id)) > 20" by simp
  have small: "length [?id] \<le> 20" by simp
  have one: "length [?l] \<le> 20" "\<exists>x\<in>set [?l]. key_of x = None" by simp_all
  have e: "hub_log init = []" by (simp add: init_def)
  from batch_limit [where ids = "replicate 21 (JString ?id)" and cfg = ?cfg and w = ?w
                      and auth = None and s = init] a big
  have 1: "batch_get_devices ?cfg ?w None
             (Some (Some (IdList (replicate 21 (JString ?id))))) init
             = (\<lparr>status = 400, body = ErrorBody TooManyDevices\<rparr>, init)"
    by blast
  from batch_limit [where names = "[?id]" and cfg = ?cfg and w = ?w and auth = None
                      and s = init] a small
  obtain results now where
    "fst (batch_get_devices ?cfg ?w None (Some (Some (IdList (map JString [?id])))) init)
       = \<lparr>status = 200, body = BatchBody results now\<rparr>"
    and "hub_log (snd (batch_get_devices ?cfg ?w None
                         (Some (Some (IdList (map JString [?id])))) init))
           = hub_log init @ map GetState [?id]"
    by blast
  then have 2: "status (fst (batch_get_devices ?cfg ?w None
                   (Some (Some (IdList [JString ?id]))) init)) = 200"
    and 3: "hub_log (snd (batch_get_devices ?cfg ?w None
                   (Some (Some (IdList [JString ?id]))) init)) = [GetState ?id]"
    using e by simp_all
  from batch_limit [where ids = "[?l]" and cfg = ?cfg and w = ?w and auth = None
                      and s = init] a one
  have "fst (batch_get_devices ?cfg ?w None (Some (Some (IdList [?l]))) init)
          = \<lparr>status = 500, body = ErrorBody (Unexpected TypeError)\<rparr>"
    and "hub_log (snd (batch_get_devices ?cfg ?w None (Some (Some (IdList [?l]))) init))
          = hub_log init @ map (GetState \<circ> format_value)
              (take (Suc (length (takeWhile (\<lambda>x. key_of x \<noteq> None) [?l]))) [?l])"
    by blast+
  moreover have "snd (batch_get_devices ?cfg ?w None (Some (Some (IdList [?l]))) init)
          = init\<lparr>hub_log := hub_log (snd (batch_get_devices ?cfg ?w None
                                             (Some (Some (IdList [?l]))) init))\<rparr>"
    by (simp add: batch_get_devices_def require_auth_def batch_get_devices_handler_def
        get_device_state_eq dict_setitem_def)
  ultimately have 4: "batch_get_devices ?cfg ?w None (Some (Some (IdList [?l]))) init
     = (\<lparr>status = 500, body = ErrorBody (Unexpected TypeError)\<rparr>,
        init\<lparr>hub_log := [GetState [91, 39, 97, 39, 93]]\<rparr>)"
    using e by (simp add: prod_eq_iff)
  from 1 2 3 4 show ?thesis by blast
qed

subsection \<open>The polling loop\<close>

lemma clear_cache_idem: "clear_cache (clear_cache b) = clear_cache b"
  by (simp add: clear_cache_def)

lemma poll_step_failed_below:
  "error_count ls < 3 \<Longrightarrow> poll_step w PollFailed ls = ls\<lparr>error_count := error_count ls + 1\<rparr>"
  by (simp add: poll_step_def Let_def)

lemma poll_step_failed_fourth:
  "error_count ls = 3 \<Longrightarrow>
     poll_step w PollFailed ls
       = ls\<lparr>the_bot := clear_cache (the_bot ls), error_count := 0,
             invalidations := invalidations ls + 1\<rparr>"
  by (simp add: poll_step_def Let_def)

text \<open>
  A run of \<^verbatim>\<open>k\<close> failed polls from a counter \<^verbatim>\<open>c\<close>: the counter ends at
  \<^verbatim>\<open>(c + k) mod 4\<close>, the loop has invalidated \<^verbatim>\<open>(c + k) div 4\<close> times, and the cache
  of the bot is touched only if it has invalidated.
\<close>

lemma run_loop_failures:
  "error_count ls \<le> 3 \<Longrightarrow>
     run_loop w (replicate k PollFailed) ls
       = ls\<lparr>the_bot := (if 4 \<le> error_count ls + k then clear_cache (the_bot ls)
                         else the_bot ls),
             error_count := (error_count ls + k) mod 4,
             invalidations := invalidations ls + (error_count ls + k) div 4\<rparr>"
proof (induction k arbitrary: ls)
  case 0
  then show ?case by simp
next
  case (Suc k)
  show ?case
  proof (cases "error_count ls = 3")
    case True
    let ?ls = "ls\<lparr>the_bot := clear_cache (the_bot ls), error_count := 0,
                   invalidations := invalidations ls + 1\<rparr>"
    have m: "(3 + Suc k) mod 4 = k mod 4" "(3 + Suc k) div 4 = Suc (k div 4)"
      by (simp_all add: mod_Suc div_Suc)
    have "run_loop w (replicate (Suc k) PollFailed) ls = run_loop w (replicate k PollFailed) ?ls"
      using True by (simp add: poll_step_failed_fourth)
    also have "\<dots> = ?ls\<lparr>the_bot := (if 4 \<le> error_count ?ls + k then clear_cache (the_bot ?ls)
                                      else the_bot ?ls),
                          error_count := (error_count ?ls + k) mod 4,
                          invalidations := invalidations ?ls + (error_count ?ls + k) div 4\<rparr>"
      by (rule Suc.IH) simp
    finally show ?thesis using True m by (simp add: clear_cache_idem)
  next
    case False
    with Suc.prems have lt: "error_count ls < 3" by simp
    let ?ls = "ls\<lparr>error_count := error_count ls + 1\<rparr>"
    have "run_loop w (replicate (Suc k) PollFailed) ls = run_loop w (replicate k PollFailed) ?ls"
      using lt by (simp add: poll_step_failed_below)
    also have "\<dots> = ?ls\<lparr>the_bot := (if 4 \<le> error_count ?ls + k then clear_cache (the_bot ?ls)
                                      else the_bot ?ls),
                          error_count := (error_count ?ls + k) mod 4,
                          invalidations := invalidations ?ls + (error_count ?ls + k) div 4\<rparr>"
      by (rule Suc.IH) (use lt in simp)
    finally show ?thesis by simp
  qed
qed

text \<open>
  On claim C4, the counterexample: a bot that holds a raw device list polls three times
  in a row without success. The loop has not called \<^verbatim>\<open>_clear_cache\<close>, the raw list is
  still there, and the counter is 3, not 0.
\<close>

theorem three_failures_do_not_invalidate:
  "invalidations (run_telegram_bot
      \<lparr>states_reply = (\<lambda>n. None), state_reply = (\<lambda>n e. None),
       service_reply = (\<lambda>n d a e. False), clock = (\<lambda>n. 0), send_reply = (\<lambda>n. False)\<rparr>
      [PollFailed, PollFailed, PollFailed] (init\<lparr>all_devices := Some []\<rparr>)) = 0 \<and>
   error_count (run_telegram_bot
      \<lparr>states_reply = (\<lambda>n. None), state_reply = (\<lambda>n e. None),
       service_reply = (\<lambda>n d a e. False), clock = (\<lambda>n. 0), send_reply = (\<lambda>n. False)\<rparr>
      [PollFailed, PollFailed, PollFailed] (init\<lparr>all_devices := Some []\<rparr>)) = 3 \<and>
   all_devices (the_bot (run_telegram_bot
      \<lparr>states_reply = (\<lambda>n. None), state_reply = (\<lambda>n e. None),
       service_reply = (\<lambda>n d a e. False), clock = (\<lambda>n. 0), send_reply = (\<lambda>n. False)\<rparr>
      [PollFailed, PollFailed, PollFailed] (init\<lparr>all_devices := Some []\<rparr>))) = Some []"
  by (simp add: run_telegram_bot_def poll_step_def Let_def init_def)

text \<open>
  Claim C4, amended: the threshold is four. The counter of consecutive failures is zero
  when the loop starts, after a successful poll and after an invalidation. From a counter
  of zero, four failed polls in a row make the loop call \<^verbatim>\<open>_clear_cache\<close> once and leave
  the counter at zero; fewer than four failed polls in a row leave the bot and the number
  of invalidations as they were and the counter at their number. A successful poll sets
  the counter to zero, from any counter, and invalidates nothing.
\<close>

theorem invalidation_on_fourth_consecutive_failure:
  assumes "error_count ls = 0"
  shows "run_loop w (replicate 4 PollFailed) ls
           = ls\<lparr>the_bot := clear_cache (the_bot ls), error_count := 0,
                 invalidations := invalidations ls + 1\<rparr> \<and>
         (k < 4 \<longrightarrow> run_loop w (replicate k PollFailed) ls = ls\<lparr>error_count := k\<rparr>) \<and>
         error_count (run_telegram_bot w [] s) = 0 \<and>
         error_count (poll_step w (PollOk updates) ls') = 0 \<and>
         invalidations (poll_step w (PollOk updates) ls') = invalidations ls'"
proof -
  have le: "error_count ls \<le> 3" using assms by simp
  have 1: "run_loop w (replicate 4 PollFailed) ls
           = ls\<lparr>the_bot := clear_cache (the_bot ls), error_count := 0,
                 invalidations := invalidations ls + 1\<rparr>"
    by (subst run_loop_failures [OF le]) (simp add: assms)
  have 2: "run_loop w (replicate k PollFailed) ls = ls\<lparr>error_count := k\<rparr>" if "k < 4"
    by (subst run_loop_failures [OF le]) (use that in \<open>simp add: assms\<close>)
  have 3: "error_count (run_telegram_bot w [] s) = 0"
    by (simp add: run_telegram_bot_def)
  have 4: "error_count (poll_step w (PollOk updates) ls') = 0"
          "invalidations (poll_step w (PollOk updates) ls') = invalidations ls'"
    by (simp_all add: poll_step_def)
  from 1 2 3 4 show ?thesis by blast
qed

text \<open>
  A witness: the loop state at the start of \<^verbatim>\<open>run_telegram_bot\<close> after \<^verbatim>\<open>init\<close>, runs
  of four and of three failed polls, and a poll without updates after two failures.
\<close>

theorem invalidation_on_fourth_consecutive_failure_witness:
  "run_loop \<lparr>states_reply = (\<lambda>n. None), state_reply = (\<lambda>n e. None),
             service_reply = (\<lambda>n d a e. False), clock = (\<lambda>n. 0), send_reply = (\<lambda>n. False)\<rparr>
     (replicate 4 PollFailed) \<lparr>error_count = 0, invalidations = 0, the_bot = init\<rparr>
     = \<lparr>error_count = 0, invalidations = 1, the_bot = init\<rparr> \<and>
   run_loop \<lparr>states_reply = (\<lambda>n. None), state_reply = (\<lambda>n e. None),
             service_reply = (\<lambda>n d a e. False), clock = (\<lambda>n. 0), send_reply = (\<lambda>n. False)\<rparr>
     (replicate 3 PollFailed) \<lparr>error_count = 0, invalidations = 0, the_bot = init\<rparr>
     = \<lparr>error_count = 3, invalidations = 0, the_bot = init\<rparr> \<and>
   error_count (poll_step \<lparr>states_reply = (\<lambda>n. None), state_reply = (\<lambda>n e. None),
             service_reply = (\<lambda>n d a e. False), clock = (\<lambda>n. 0), send_reply = (\<lambda>n. False)\<rparr>
     (PollOk []) \<lparr>error_count = 2, invalidations = 0, the_bot = init\<rparr>) = 0"
proof -
  let ?w = "\<lparr>states_reply = (\<lambda>n. None), state_reply = (\<lambda>n e. None),
             service_reply = (\<lambda>n d a e. False), clock = (\<lambda>n. 0), send_reply = (\<lambda>n. False)\<rparr>"
  let ?ls = "\<lparr>error_count = 0, invalidations = 0, the_bot = init\<rparr>"
  have z: "error_count ?ls = 0" by simp
  have c: "clear_cache init = init" by (simp add: clear_cache_def init_def)
  from invalidation_on_fourth_consecutive_failure
         [OF z, of ?w 3 init "[]" "\<lparr>error_count = 2, invalidations = 0, the_bot = init\<rparr>"]
  show ?thesis by (simp add: c)
qed

subsection \<open>The session of a user\<close>

text \<open>What the cache layer and the menus leave alone: the sessions and the messages sent.\<close>

lemma load_keeps_sessions:
  "user_states (snd (load_areas_with_devices w f s)) = user_states s \<and>
   outbox (snd (load_areas_with_devices w f s)) = outbox s"
  by (simp add: load_areas_with_devices_def time_time_def manual_area_grouping_def
      get_all_devices_def hub_get_states_def Let_def split: prod.splits option.splits)

lemma get_area_devices_keeps_sessions:
  "user_states (snd (get_area_devices w a f s)) = user_states s \<and>
   outbox (snd (get_area_devices w a f s)) = outbox s"
proof -
  let ?s1 = "if f then clear_cache s else s"
  have c: "user_states ?s1 = user_states s" "outbox ?s1 = outbox s"
    by (simp_all add: clear_cache_def)
  have "snd (get_area_devices w a f s) = snd (load_areas_with_devices w f ?s1)"
    by (simp add: get_area_devices_def Let_def split: prod.splits)
  then show ?thesis
    using load_keeps_sessions [of w f ?s1] c by simp
qed

lemma get_all_areas_list_keeps_sessions:
  "user_states (snd (get_all_areas_list w s)) = user_states s \<and>
   outbox (snd (get_all_areas_list w s)) = outbox s"
  using load_keeps_sessions [of w False s]
  by (auto simp: get_all_areas_list_def Let_def split: prod.splits option.splits)

lemma create_main_menu_keeps_sessions:
  "user_states (snd (create_main_menu w s)) = user_states s \<and>
   outbox (snd (create_main_menu w s)) = outbox s"
proof -
  have "snd (create_main_menu w s) = snd (get_all_areas_list w s)"
    by (simp add: create_main_menu_def Let_def split: prod.splits sum.splits)
  then show ?thesis
    using get_all_areas_list_keeps_sessions [of w s] by simp
qed

lemma create_house_menu_keeps_sessions:
  "user_states (snd (create_house_menu w a s)) = user_states s \<and>
   outbox (snd (create_house_menu w a s)) = outbox s"
proof -
  have "snd (create_house_menu w a s) = snd (get_area_devices w a False s)"
    by (simp add: create_house_menu_def Let_def split: prod.splits)
  then show ?thesis
    using get_area_devices_keeps_sessions [of w a False s] by simp
qed

text \<open>\<^verbatim>\<open>send_message\<close> leaves the sessions alone and sends the text it is given, once, or
  nothing when the menu cannot be built.\<close>

lemma send_message_cases:
  "\<exists>s1. user_states s1 = user_states s \<and> outbox s1 = outbox s \<and>
     (send_message w chat msg menu s = (False, s1) \<or>
      (\<exists>kb. send_message w chat msg menu s
         = (send_reply w (length (outbox s1)),
            s1\<lparr>outbox := outbox s1
                 @ [\<lparr>chat_id = chat, text_sent = msg, keyboard = kb,
                      delivered = send_reply w (length (outbox s1))\<rparr>]\<rparr>)))"
proof -
  define m where "m =
    (case menu of
       None \<Rightarrow> create_main_menu w s
     | Some area_name \<Rightarrow>
         if area_name \<noteq> []
         then (let (m, s') = create_house_menu w area_name s in (Inr m, s'))
         else create_main_menu w s)"
  have k: "user_states (snd m) = user_states s \<and> outbox (snd m) = outbox s"
  proof (cases menu)
    case None
    then show ?thesis using create_main_menu_keeps_sessions [of w s] by (simp add: m_def)
  next
    case (Some a)
    have "snd (let (m, s') = create_house_menu w a s in (Inr m :: py_error + ustr list list, s'))
            = snd (create_house_menu w a s)"
      by (simp add: Let_def split: prod.splits)
    then show ?thesis
      using Some create_main_menu_keeps_sessions [of w s]
        create_house_menu_keeps_sessions [of w a s]
      by (simp add: m_def)
  qed
  have e: "send_message w chat msg menu s =
     (case fst m of
        Inl e \<Rightarrow> (False, snd m)
      | Inr kb \<Rightarrow>
          (send_reply w (length (outbox (snd m))),
           (snd m)\<lparr>outbox := outbox (snd m)
                 @ [\<lparr>chat_id = chat, text_sent = msg, keyboard = kb,
                      delivered = send_reply w (length (outbox (snd m)))\<rparr>]\<rparr>))"
    unfolding send_message_def m_def [symmetric]
    by (cases m) (simp add: Let_def split: sum.splits)
  show ?thesis
  proof (cases "fst m")
    case (Inl e')
    with e have "send_message w chat msg menu s = (False, snd m)" by simp
    with k show ?thesis by blast
  next
    case (Inr kb)
    with e have "send_message w chat msg menu s
         = (send_reply w (length (outbox (snd m))),
            (snd m)\<lparr>outbox := outbox (snd m)
                 @ [\<lparr>chat_id = chat, text_sent = msg, keyboard = kb,
                      delivered = send_reply w (length (outbox (snd m)))\<rparr>]\<rparr>)"
      by simp
    with k show ?thesis by blast
  qed
qed

lemma send_message_keeps_sessions:
  "user_states (snd (send_message w chat msg menu s)) = user_states s"
  using send_message_cases [of s w chat msg menu] by auto

lemma send_message_outbox:
  "map text_sent (outbox (snd (send_message w chat msg menu s)))
     = map text_sent (outbox s) @ [msg]
   \<or> outbox (snd (send_message w chat msg menu s)) = outbox s"
  using send_message_cases [of s w chat msg menu] by auto

text \<open>
  A message that is none of \<^verbatim>\<open>/start\<close>, refresh and status of all, and that has neither
  of the two words of an area name: \<^verbatim>\<open>handle_message\<close> sets the session to \<^verbatim>\<open>main\<close>
  and asks the user to choose a house from the menu, whatever the session was.
\<close>

lemma handle_message_other_text:
  assumes "lower txt \<noteq> CMD_START" "lower txt \<noteq> CMD_REFRESH" "lower txt \<noteq> CMD_STATUS_ALL"
    and "\<not> contains DOMIK txt" "\<not> contains OBSHCHIE txt"
  shows "handle_message w chat txt s
           = snd (send_message w chat ChooseFromMenu None (set_user_state chat STATE_MAIN None s))"
  using assms by (simp add: handle_message_def handle_message_body_def Let_def)

lemma status_is_other_text:
  "lower CMD_STATUS \<noteq> CMD_START \<and> lower CMD_STATUS \<noteq> CMD_REFRESH
   \<and> lower CMD_STATUS \<noteq> CMD_STATUS_ALL \<and> \<not> contains DOMIK CMD_STATUS
   \<and> \<not> contains OBSHCHIE CMD_STATUS"
  by (simp add: lower_def lower_cp_def CMD_STATUS_def CMD_START_def CMD_REFRESH_def
      CMD_STATUS_ALL_def DOMIK_def OBSHCHIE_def)

lemma data_is_other_text:
  "lower CMD_DATA \<noteq> CMD_START \<and> lower CMD_DATA \<noteq> CMD_REFRESH
   \<and> lower CMD_DATA \<noteq> CMD_STATUS_ALL \<and> \<not> contains DOMIK CMD_DATA
   \<and> \<not> contains OBSHCHIE CMD_DATA"
  by (simp add: lower_def lower_cp_def CMD_DATA_def CMD_START_def CMD_REFRESH_def
      CMD_STATUS_ALL_def DOMIK_def OBSHCHIE_def)

lemma handle_message_other_text_session:
  assumes "lower txt \<noteq> CMD_START" "lower txt \<noteq> CMD_REFRESH" "lower txt \<noteq> CMD_STATUS_ALL"
    and "\<not> contains DOMIK txt" "\<not> contains OBSHCHIE txt"
  shows "user_states (handle_message w chat txt s) chat
           = Some \<lparr>ustate = STATE_MAIN, udata = None\<rparr>"
    and "map text_sent (outbox (handle_message w chat txt s))
           = map text_sent (outbox s) @ [ChooseFromMenu]
         \<or> outbox (handle_message w chat txt s) = outbox s"
proof -
  let ?s = "set_user_state chat STATE_MAIN None s"
  have o: "outbox ?s = outbox s" by (simp add: set_user_state_def)
  show "user_states (handle_message w chat txt s) chat
          = Some \<lparr>ustate = STATE_MAIN, udata = None\<rparr>"
    by (simp add: handle_message_other_text [OF assms] send_message_keeps_sessions
        set_user_state_def)
  show "map text_sent (outbox (handle_message w chat txt s))
           = map text_sent (outbox s) @ [ChooseFromMenu]
         \<or> outbox (handle_message w chat txt s) = outbox s"
    using send_message_outbox [of w chat ChooseFromMenu None ?s]
    by (simp add: handle_message_other_text [OF assms] o)
qed

text \<open>
  The handler of the house menu, taken alone, does what is said of the two commands: it
  keeps the session and sends the status after a forced refresh, or the sensor summary.
  \<^verbatim>\<open>handle_message\<close> never calls it.
\<close>

lemma handle_house_commands_status:
  "handle_house_commands w chat CMD_STATUS g s = show_area_status w chat g s"
  by (simp add: handle_house_commands_def Let_def lower_def lower_cp_def CMD_STATUS_def
      CMD_BACK_def CMD_DATA_def)

lemma handle_house_commands_data:
  "handle_house_commands w chat CMD_DATA g s = show_kws_data w chat g s"
  by (simp add: handle_house_commands_def Let_def lower_def lower_cp_def CMD_BACK_def
      CMD_DATA_def)

text \<open>
  The session \<^verbatim>\<open>house\<close> is entered: a message that names an area with devices, and is
  not a command, puts the user in the state \<^verbatim>\<open>house\<close> of that area.
\<close>

lemma handle_message_enters_house:
  assumes "lower txt \<noteq> CMD_START" "lower txt \<noteq> CMD_REFRESH" "lower txt \<noteq> CMD_STATUS_ALL"
    and "contains DOMIK txt \<or> contains OBSHCHIE txt"
    and "fst (get_area_devices w txt False (set_user_state chat STATE_MAIN None s)) \<noteq> []"
  shows "user_states (handle_message w chat txt s) chat
           = Some \<lparr>ustate = STATE_HOUSE, udata = Some txt\<rparr>"
proof -
  let ?s = "set_user_state chat STATE_MAIN None s"
  obtain devices s3 where g: "get_area_devices w txt False ?s = (devices, s3)"
    by (cases "get_area_devices w txt False ?s")
  with assms(5) have d: "devices \<noteq> []" by simp
  have "handle_message w chat txt s
          = snd (send_message w chat (AreaSummary txt (length devices) (on_count devices))
                   (Some txt) (set_user_state chat STATE_HOUSE (Some txt) s3))"
    using assms(1-4) d by (simp add: handle_message_def handle_message_body_def Let_def g)
  then show ?thesis
    by (simp add: send_message_keeps_sessions set_user_state_def)
qed

text \<open>
  On claim C1: a user is in the state \<^verbatim>\<open>house\<close> of a group \<^verbatim>\<open>g\<close> and sends the text
  \<^verbatim>\<open>status\<close>, or the text \<^verbatim>\<open>data\<close>. After \<^verbatim>\<open>handle_message\<close> the session of the user
  is \<^verbatim>\<open>main\<close>, without a group, and the bot has sent the request to choose a house from
  the menu, or nothing: neither a status report nor a sensor summary of \<^verbatim>\<open>g\<close>.
\<close>

theorem status_and_data_leave_the_house:
  "user_states (handle_message w chat CMD_STATUS
       (set_user_state chat STATE_HOUSE (Some g) s)) chat
     = Some \<lparr>ustate = STATE_MAIN, udata = None\<rparr> \<and>
   user_states (handle_message w chat CMD_DATA
       (set_user_state chat STATE_HOUSE (Some g) s)) chat
     = Some \<lparr>ustate = STATE_MAIN, udata = None\<rparr> \<and>
   (map text_sent (outbox (handle_message w chat CMD_STATUS
        (set_user_state chat STATE_HOUSE (Some g) s)))
      = map text_sent (outbox s) @ [ChooseFromMenu]
    \<or> outbox (handle_message w chat CMD_STATUS
        (set_user_state chat STATE_HOUSE (Some g) s)) = outbox s) \<and>
   (map text_sent (outbox (handle_message w chat CMD_DATA
        (set_user_state chat STATE_HOUSE (Some g) s)))
      = map text_sent (outbox s) @ [ChooseFromMenu]
    \<or> outbox (handle_message w chat CMD_DATA
        (set_user_state chat STATE_HOUSE (Some g) s)) = outbox s)"
proof -
  let ?s = "set_user_state chat STATE_HOUSE (Some g) s"
  have o: "outbox ?s = outbox s" by (simp add: set_user_state_def)
  note st = status_is_other_text
  note da = data_is_other_text
  have 1: "user_states (handle_message w chat CMD_STATUS ?s) chat
             = Some \<lparr>ustate = STATE_MAIN, udata = None\<rparr>"
    using st by (intro handle_message_other_text_session(1)) simp_all
  have 2: "user_states (handle_message w chat CMD_DATA ?s) chat
             = Some \<lparr>ustate = STATE_MAIN, udata = None\<rparr>"
    using da by (intro handle_message_other_text_session(1)) simp_all
  have 3: "map text_sent (outbox (handle_message w chat CMD_STATUS ?s))
             = map text_sent (outbox ?s) @ [ChooseFromMenu]
           \<or> outbox (handle_message w chat CMD_STATUS ?s) = outbox ?s"
    using st by (intro handle_message_other_text_session(2)) simp_all
  have 4: "map text_sent (outbox (handle_message w chat CMD_DATA ?s))
             = map text_sent (outbox ?s) @ [ChooseFromMenu]
           \<or> outbox (handle_message w chat CMD_DATA ?s) = outbox ?s"
    using da by (intro handle_message_other_text_session(2)) simp_all
  from 1 2 3 4 show ?thesis unfolding o by blast
qed

end
